(* ===== verification/CT_Prelude.thy ===== *)
theory CT_Prelude
  imports Main "HOL-Library.Word" "HOL-Library.Sublist"
begin

text \<open>
  Shared vocabulary of the development: the machine integers of the Go sources as words, byte
  strings, the collections of simplification rules the component theories fill, and generic
  facts on lists, options and words that several components use.
\<close>

unbundle bit_operations_syntax

section \<open>Types\<close>

type_synonym u8 = "8 word"
type_synonym u32 = "32 word"
type_synonym u64 = "64 word"

text \<open>A Go string is a sequence of bytes; a HOL character is a byte.\<close>

type_synonym bytes = string

abbreviation newline :: char where "newline \<equiv> CHR 0x0A"
abbreviation dquote :: char where "dquote \<equiv> CHR 0x22"
abbreviation squote :: char where "squote \<equiv> CHR 0x27"
abbreviation backquote :: char where "backquote \<equiv> CHR 0x60"
abbreviation backslash :: char where "backslash \<equiv> CHR 0x5C"

section \<open>Collections of rules\<close>

named_theorems go_defs \<open>definitions of the small string helpers of the sources\<close>
named_theorems layout_simps \<open>evaluation of struct sizes and offsets\<close>
named_theorems slot_simps \<open>one slot of the harvest loop\<close>
named_theorems wf_intros \<open>preservation of well-formedness\<close>

section \<open>Lists\<close>

lemma list_update_map_upt:
  "i < n \<Longrightarrow> (map f [0..<n])[i := x] = map (f(i := x)) [0..<n]"
  by (rule nth_equalityI) (auto simp: nth_list_update)

lemma concat_map_single: "concat (map (\<lambda>x. [f x]) xs) = map f xs"
  by (induction xs) auto

lemma in_concat_map: "x \<in> set xs \<Longrightarrow> \<exists>a b. concat (map f xs) = a @ f x @ b"
  by (metis concat.simps(2) concat_append list.simps(9) map_append split_list)

lemma prefix_take_eq: "prefix w s \<longleftrightarrow> take (length w) s = w"
  by (auto simp: prefix_def) (metis append_take_drop_id)

lemma suffix_append_self [simp]: "suffix ys (xs @ ys)"
  by (simp add: suffix_def)

lemma foldl_append_concat: "foldl (\<lambda>d i. d @ f i) d0 xs = d0 @ concat (map f xs)"
  by (induction xs arbitrary: d0) auto

lemma takeWhile_append_stop:
  "(\<forall>x\<in>set xs. P x) \<Longrightarrow> \<not> P y \<Longrightarrow> takeWhile P (xs @ y # ys) = xs"
  by (induction xs) auto

lemma dropWhile_append_stop:
  "(\<forall>x\<in>set xs. P x) \<Longrightarrow> \<not> P y \<Longrightarrow> dropWhile P (xs @ y # ys) = y # ys"
  by (induction xs) auto

section \<open>Words\<close>

lemma unat_less_2p64 [simp]: "unat (v::u64) < 18446744073709551616"
  using unsigned_less [of v, where ?'a = nat] by simp

lemma unat_less_2p32 [simp]: "unat (v::u32) < 4294967296"
  using unsigned_less [of v, where ?'a = nat] by simp

lemma word_mod2_even: "(v::u64) mod 2 = 0 \<longleftrightarrow> even (unat v)"
  by (simp add: even_iff_mod_2_eq_zero unat_mod flip: unat_eq_0)

end
