(* ===== verification/Station_Data.thy ===== *)
theory Station_Data
  imports CT_Prelude
begin

text \<open>
  The shared-memory data of \<^verbatim>\<open>structure/station.go\<close>: the structs \<^verbatim>\<open>GlobalHeader\<close>, \<^verbatim>\<open>Epoch\<close> and
  \<^verbatim>\<open>StationData\<close> as records, their memory layout computed by the alignment rules of the Go
  compiler, and the byte-level view the engine gets by casting the mapped file.
\<close>

section \<open>The structs\<close>

record GlobalHeader =
  MagicNum :: u64
  Version :: u32
  MaxStations :: u32
  AllocatedCount :: u32
  TracerSleeping :: u32

record Epoch =
  Timestamp :: u64
  TID :: u64
  Addr :: u64
  Seq :: u64
  Reserved :: "u8 list"
  IsActive :: bool

record StationHeader =
  ProbeID :: u64
  BirthTS :: u64
  IsDead :: bool

record StationData =
  Header :: StationHeader
  Slots :: "Epoch list"
  Flexible :: "u8 list"

text \<open>The fixed lengths of the Go arrays.\<close>

definition wf_epoch :: "Epoch \<Rightarrow> bool" where
  "wf_epoch e \<longleftrightarrow> length (Reserved e) = 31"

definition wf_station :: "StationData \<Rightarrow> bool" where
  "wf_station s \<longleftrightarrow> length (Slots s) = 8 \<and> (\<forall>e \<in> set (Slots s). wf_epoch e) \<and> length (Flexible s) = 448"

definition zero_epoch :: Epoch where
  "zero_epoch = \<lparr>Timestamp = 0, TID = 0, Addr = 0, Seq = 0, Reserved = replicate 31 0, IsActive = False\<rparr>"

definition zero_station :: StationData where
  "zero_station =
     \<lparr>Header = \<lparr>ProbeID = 0, BirthTS = 0, IsDead = False\<rparr>,
      Slots = replicate 8 zero_epoch, Flexible = replicate 448 0\<rparr>"

lemma wf_zero_station [simp, wf_intros]: "wf_station zero_station"
  by (simp add: wf_station_def zero_station_def wf_epoch_def zero_epoch_def)

section \<open>Layout\<close>

datatype go_type =
    GoU64 | GoU32 | GoBool | GoByte
  | GoArray nat go_type
  | GoStruct "(string \<times> go_type) list"

definition round_up :: "nat \<Rightarrow> nat \<Rightarrow> nat" where
  "round_up n a = (n + a - 1) div a * a"

fun alignof :: "go_type \<Rightarrow> nat" and align_fields :: "(string \<times> go_type) list \<Rightarrow> nat" where
  "alignof GoU64 = 8"
| "alignof GoU32 = 4"
| "alignof GoBool = 1"
| "alignof GoByte = 1"
| "alignof (GoArray n t) = alignof t"
| "alignof (GoStruct fs) = align_fields fs"
| "align_fields [] = 1"
| "align_fields ((f, t) # fs) = max (alignof t) (align_fields fs)"

fun sizeof :: "go_type \<Rightarrow> nat" and fields_end :: "nat \<Rightarrow> (string \<times> go_type) list \<Rightarrow> nat" where
  "sizeof GoU64 = 8"
| "sizeof GoU32 = 4"
| "sizeof GoBool = 1"
| "sizeof GoByte = 1"
| "sizeof (GoArray n t) = n * sizeof t"
| "sizeof (GoStruct fs) = round_up (fields_end 0 fs) (align_fields fs)"
| "fields_end off [] = off"
| "fields_end off ((f, t) # fs) = fields_end (round_up off (alignof t) + sizeof t) fs"

fun field_offsets :: "nat \<Rightarrow> (string \<times> go_type) list \<Rightarrow> (string \<times> nat) list" where
  "field_offsets off [] = []"
| "field_offsets off ((f, t) # fs) =
     (let o' = round_up off (alignof t) in (f, o') # field_offsets (o' + sizeof t) fs)"

fun offsets_of :: "go_type \<Rightarrow> (string \<times> nat) list" where
  "offsets_of (GoStruct fs) = field_offsets 0 fs"
| "offsets_of _ = []"

definition GlobalHeader_type :: go_type where
  "GlobalHeader_type = GoStruct
     [(''MagicNum'', GoU64), (''Version'', GoU32), (''MaxStations'', GoU32),
      (''AllocatedCount'', GoU32), (''TracerSleeping'', GoU32), (''_'', GoArray 1000 GoByte)]"

definition Epoch_type :: go_type where
  "Epoch_type = GoStruct
     [(''Timestamp'', GoU64), (''TID'', GoU64), (''Addr'', GoU64), (''Seq'', GoU64),
      (''Reserved'', GoArray 31 GoByte), (''IsActive'', GoBool)]"

definition StationHeader_type :: go_type where
  "StationHeader_type = GoStruct
     [(''ProbeID'', GoU64), (''BirthTS'', GoU64), (''IsDead'', GoBool), (''_'', GoArray 47 GoByte)]"

definition StationData_type :: go_type where
  "StationData_type = GoStruct
     [(''Header'', StationHeader_type), (''Slots'', GoArray 8 Epoch_type),
      (''Flexible'', GoArray 448 GoByte)]"

lemmas layout_defs [layout_simps] =
  GlobalHeader_type_def Epoch_type_def StationHeader_type_def StationData_type_def
  round_up_def Let_def

section \<open>Bytes of the mapped file\<close>

text \<open>Little-endian integers.\<close>

fun le_nat :: "u8 list \<Rightarrow> nat" where
  "le_nat [] = 0"
| "le_nat (b # bs) = unat b + 256 * le_nat bs"

fun le_bytes :: "nat \<Rightarrow> nat \<Rightarrow> u8 list" where
  "le_bytes 0 n = []"
| "le_bytes (Suc k) n = word_of_nat (n mod 256) # le_bytes k (n div 256)"

lemma length_le_bytes [simp]: "length (le_bytes k n) = k"
  by (induction k arbitrary: n) auto

lemma le_nat_le_bytes: "le_nat (le_bytes k n) = n mod 256 ^ k"
proof (induction k arbitrary: n)
  case (Suc k)
  have "unat (word_of_nat (n mod 256) :: u8) = n mod 256"
    by (simp add: unat_of_nat)
  with Suc show ?case by (simp add: mod_mult2_eq)
qed simp

definition load :: "nat \<Rightarrow> u8 list \<Rightarrow> nat \<Rightarrow> u8 list" where
  "load k m off = map (\<lambda>i. m ! (off + i)) [0..<k]"

definition store :: "u8 list \<Rightarrow> nat \<Rightarrow> u8 list \<Rightarrow> u8 list" where
  "store m off bs = take off m @ bs @ drop (off + length bs) m"

lemma length_store [simp]: "off + length bs \<le> length m \<Longrightarrow> length (store m off bs) = length m"
  by (simp add: store_def)

lemma nth_store:
  "off + length bs \<le> length m \<Longrightarrow> i < length m \<Longrightarrow>
   store m off bs ! i = (if off \<le> i \<and> i < off + length bs then bs ! (i - off) else m ! i)"
  by (auto simp: store_def nth_append min_def)

lemma load_store_same: "off + length bs \<le> length m \<Longrightarrow> load (length bs) (store m off bs) off = bs"
  by (rule nth_equalityI) (auto simp: load_def nth_store)

lemma load_store_other:
  "off + length bs \<le> length m \<Longrightarrow> off' + k \<le> length m \<Longrightarrow>
   off + length bs \<le> off' \<or> off' + k \<le> off \<Longrightarrow>
   load k (store m off bs) off' = load k m off'"
  by (auto simp: load_def nth_store)

definition load_u64 :: "u8 list \<Rightarrow> nat \<Rightarrow> u64" where
  "load_u64 m off = word_of_nat (le_nat (load 8 m off))"

definition load_u32 :: "u8 list \<Rightarrow> nat \<Rightarrow> u32" where
  "load_u32 m off = word_of_nat (le_nat (load 4 m off))"

definition store_u64 :: "u8 list \<Rightarrow> nat \<Rightarrow> u64 \<Rightarrow> u8 list" where
  "store_u64 m off v = store m off (le_bytes 8 (unat v))"

definition store_u32 :: "u8 list \<Rightarrow> nat \<Rightarrow> u32 \<Rightarrow> u8 list" where
  "store_u32 m off v = store m off (le_bytes 4 (unat v))"

lemma length_store_word [simp]:
  "off + 8 \<le> length m \<Longrightarrow> length (store_u64 m off v) = length m"
  "off + 4 \<le> length m \<Longrightarrow> length (store_u32 m off w) = length m"
  by (simp_all add: store_u64_def store_u32_def)

lemma load_u64_store_u64: "off + 8 \<le> length m \<Longrightarrow> load_u64 (store_u64 m off v) off = v"
  using load_store_same [of off "le_bytes 8 (unat v)" m]
  by (simp add: load_u64_def store_u64_def le_nat_le_bytes)

lemma load_u32_store_u32: "off + 4 \<le> length m \<Longrightarrow> load_u32 (store_u32 m off v) off = v"
  using load_store_same [of off "le_bytes 4 (unat v)" m]
  by (simp add: load_u32_def store_u32_def le_nat_le_bytes)

lemma load_store_u64_other:
  "off + 8 \<le> length m \<Longrightarrow> off' + k \<le> length m \<Longrightarrow> off + 8 \<le> off' \<or> off' + k \<le> off \<Longrightarrow>
   load k (store_u64 m off v) off' = load k m off'"
  by (simp add: store_u64_def load_store_other)

lemma load_store_u32_other:
  "off + 4 \<le> length m \<Longrightarrow> off' + k \<le> length m \<Longrightarrow> off + 4 \<le> off' \<or> off' + k \<le> off \<Longrightarrow>
   load k (store_u32 m off v) off' = load k m off'"
  by (simp add: store_u32_def load_store_other)

section \<open>The casts of the engine\<close>

text \<open>\<^verbatim>\<open>(*structure.GlobalHeader)(unsafe.Pointer(&mmapData[0]))\<close> and the slice of stations that
  starts after the header, read at the offsets of the struct comments.\<close>

definition decode_header :: "u8 list \<Rightarrow> GlobalHeader" where
  "decode_header m =
     \<lparr>MagicNum = load_u64 m 0x00, Version = load_u32 m 0x08, MaxStations = load_u32 m 0x0C,
      AllocatedCount = load_u32 m 0x10, TracerSleeping = load_u32 m 0x14\<rparr>"

definition decode_epoch :: "u8 list \<Rightarrow> nat \<Rightarrow> Epoch" where
  "decode_epoch m off =
     \<lparr>Timestamp = load_u64 m off, TID = load_u64 m (off + 0x08), Addr = load_u64 m (off + 0x10),
      Seq = load_u64 m (off + 0x18), Reserved = load 31 m (off + 0x20),
      IsActive = (load 1 m (off + 0x3F) \<noteq> [0])\<rparr>"

definition decode_station :: "u8 list \<Rightarrow> nat \<Rightarrow> StationData" where
  "decode_station m off =
     \<lparr>Header = \<lparr>ProbeID = load_u64 m off, BirthTS = load_u64 m (off + 0x08),
                IsDead = (load 1 m (off + 0x10) \<noteq> [0])\<rparr>,
      Slots = map (\<lambda>j. decode_epoch m (off + 0x40 + 64 * j)) [0..<8],
      Flexible = load 448 m (off + 0x240)\<rparr>"

definition station_off :: "nat \<Rightarrow> nat" where
  "station_off i = 1024 + 1024 * i"

definition slot_off :: "nat \<Rightarrow> nat \<Rightarrow> nat" where
  "slot_off i j = station_off i + 0x40 + 64 * j"

definition stations_view :: "u8 list \<Rightarrow> nat \<Rightarrow> StationData list" where
  "stations_view m n = map (\<lambda>i. decode_station m (station_off i)) [0..<n]"

lemma length_load [simp]: "length (load k m off) = k"
  by (simp add: load_def)

lemma wf_decode_station [wf_intros]: "wf_station (decode_station m off)"
  by (auto simp: wf_station_def decode_station_def wf_epoch_def decode_epoch_def)

lemma load_zeros: "off + k \<le> n \<Longrightarrow> load k (replicate n 0) off = replicate k 0"
  by (rule nth_equalityI) (auto simp: load_def)

lemma le_nat_zeros [simp]: "le_nat (replicate k 0) = 0"
  by (induction k) auto

text \<open>A struct depends only on the bytes of its own range.\<close>

lemma decode_epoch_cong:
  assumes "\<And>d k. d + k \<le> 64 \<Longrightarrow> load k m (off + d) = load k m' (off' + d)"
  shows "decode_epoch m off = decode_epoch m' off'"
  using assms [of 0 8] assms by (simp add: decode_epoch_def load_u64_def)

lemma decode_station_cong:
  assumes same: "\<And>d k. d + k \<le> 1024 \<Longrightarrow> load k m (off + d) = load k m' (off' + d)"
  shows "decode_station m off = decode_station m' off'"
proof -
  have "decode_epoch m (off + 0x40 + 64 * j) = decode_epoch m' (off' + 0x40 + 64 * j)"
    if "j < 8" for j
    using that same [of "0x40 + 64 * j + _"] by (intro decode_epoch_cong) (simp add: add.assoc)
  with same [of 0 8] same show ?thesis
    by (simp add: decode_station_def load_u64_def)
qed

lemma decode_zero_station:
  assumes "off + 1024 \<le> n"
  shows "decode_station (replicate n 0) off = zero_station"
proof -
  have epoch: "decode_epoch (replicate n 0) (off + 0x40 + 64 * j) = zero_epoch" if "j < 8" for j
    using assms that by (simp add: decode_epoch_def zero_epoch_def load_u64_def load_zeros)
  have "map (\<lambda>j. decode_epoch (replicate n 0) (off + 0x40 + 64 * j)) [0..<8]
        = replicate 8 zero_epoch"
    by (rule nth_equalityI) (simp_all add: epoch)
  with assms show ?thesis
    by (simp add: decode_station_def zero_station_def load_u64_def load_zeros)
qed

lemma slot_off_disjoint:
  assumes "j < 8" "j' < 8" "(i, j) \<noteq> (i', j')"
  shows "slot_off i j + 64 \<le> slot_off i' j' \<or> slot_off i' j' + 64 \<le> slot_off i j"
proof (cases i i' rule: linorder_cases)
  case equal
  with assms show ?thesis by (auto simp: slot_off_def)
qed (use assms in \<open>auto simp: slot_off_def station_off_def\<close>)

section \<open>Properties of the layout\<close>

text \<open>The sizes and field offsets the Go compiler gives the three structs are the ones their
  comments state: 1024, 64 and 1024 bytes, each field at its documented offset, so the layout is
  the one the C++ and Rust probes write.\<close>

lemma struct_layout:
  "sizeof GlobalHeader_type = 1024 \<and> sizeof Epoch_type = 64 \<and> sizeof StationData_type = 1024 \<and>
   offsets_of GlobalHeader_type =
     [(''MagicNum'', 0x00), (''Version'', 0x08), (''MaxStations'', 0x0C),
      (''AllocatedCount'', 0x10), (''TracerSleeping'', 0x14), (''_'', 0x18)] \<and>
   offsets_of Epoch_type =
     [(''Timestamp'', 0x00), (''TID'', 0x08), (''Addr'', 0x10), (''Seq'', 0x18),
      (''Reserved'', 0x20), (''IsActive'', 0x3F)] \<and>
   offsets_of StationData_type = [(''Header'', 0), (''Slots'', 0x40), (''Flexible'', 0x240)] \<and>
   offsets_of StationHeader_type =
     [(''ProbeID'', 0x00), (''BirthTS'', 0x08), (''IsDead'', 0x10), (''_'', 0x11)]"
  by (simp add: layout_simps)

text \<open>Slots do not alias. In a mapping for \<open>n\<close> stations, a 64-bit store into any field of slot
  \<open>j\<close> of station \<open>i\<close> stays inside the mapping, leaves every other slot of every station as it was
  and leaves the global header as it was.\<close>

lemma slot_store_isolated:
  assumes "length m = 1024 + 1024 * n" "i < n" "j < 8" "k + 8 \<le> 64"
  shows "slot_off i j + k + 8 \<le> length m \<and>
         decode_header (store_u64 m (slot_off i j + k) v) = decode_header m \<and>
         (\<forall>i' j'. i' < n \<and> j' < 8 \<and> (i', j') \<noteq> (i, j) \<longrightarrow>
            decode_epoch (store_u64 m (slot_off i j + k) v) (slot_off i' j')
              = decode_epoch m (slot_off i' j'))"
proof (intro conjI allI impI)
  have inside: "slot_off a b + 64 \<le> length m" if "a < n" "b < 8" for a b
    using assms(1) that by (simp add: slot_off_def station_off_def)
  from inside [OF assms(2,3)] assms(4) show bound: "slot_off i j + k + 8 \<le> length m" by simp
  have far: "1024 \<le> slot_off i j" by (simp add: slot_off_def station_off_def)
  with bound show "decode_header (store_u64 m (slot_off i j + k) v) = decode_header m"
    by (simp add: decode_header_def load_u64_def load_u32_def load_store_u64_other)
  fix i' j' assume other: "i' < n \<and> j' < 8 \<and> (i', j') \<noteq> (i, j)"
  then have "slot_off i j + 64 \<le> slot_off i' j' \<or> slot_off i' j' + 64 \<le> slot_off i j"
    using slot_off_disjoint assms(3) by (metis (no_types, lifting))
  with other bound assms(4) inside [of i' j']
  show "decode_epoch (store_u64 m (slot_off i j + k) v) (slot_off i' j') = decode_epoch m (slot_off i' j')"
    by (intro decode_epoch_cong load_store_u64_other) auto
qed

end
