(* ===== verification/Go_Strings.thy ===== *)
theory Go_Strings
  imports CT_Prelude
begin

text \<open>
  The parts of the Go standard library the sources use on strings: \<^verbatim>\<open>strings.TrimSpace\<close>,
  \<^verbatim>\<open>ToLower\<close>, \<^verbatim>\<open>ReplaceAll\<close>, \<^verbatim>\<open>TrimSuffix\<close>, decimal formatting of \<^verbatim>\<open>strconv\<close> and \<^verbatim>\<open>fmt\<close>,
  \<^verbatim>\<open>filepath.Ext\<close>, \<^verbatim>\<open>Dir\<close> and \<^verbatim>\<open>Clean\<close> (Unix rules), with the laws the components need: blank
  strings, idempotent trimming, decimal round trip, escaping by doubling a character.
\<close>

section \<open>White space\<close>

text \<open>The UTF-8 encodings of the runes for which \<^verbatim>\<open>unicode.IsSpace\<close> holds.\<close>

definition go_spaces :: "string list" where
  "go_spaces =
     [[CHR 0x09], [CHR 0x0A], [CHR 0x0B], [CHR 0x0C], [CHR 0x0D], [CHR 0x20],
      [CHR 0xC2, CHR 0x85], [CHR 0xC2, CHR 0xA0], [CHR 0xE1, CHR 0x9A, CHR 0x80],
      [CHR 0xE2, CHR 0x80, CHR 0x80], [CHR 0xE2, CHR 0x80, CHR 0x81],
      [CHR 0xE2, CHR 0x80, CHR 0x82], [CHR 0xE2, CHR 0x80, CHR 0x83],
      [CHR 0xE2, CHR 0x80, CHR 0x84], [CHR 0xE2, CHR 0x80, CHR 0x85],
      [CHR 0xE2, CHR 0x80, CHR 0x86], [CHR 0xE2, CHR 0x80, CHR 0x87],
      [CHR 0xE2, CHR 0x80, CHR 0x88], [CHR 0xE2, CHR 0x80, CHR 0x89],
      [CHR 0xE2, CHR 0x80, CHR 0x8A], [CHR 0xE2, CHR 0x80, CHR 0xA8],
      [CHR 0xE2, CHR 0x80, CHR 0xA9], [CHR 0xE2, CHR 0x80, CHR 0xAF],
      [CHR 0xE2, CHR 0x81, CHR 0x9F], [CHR 0xE3, CHR 0x80, CHR 0x80]]"

text \<open>Strip words of a list from the front as long as one of them is there.\<close>

function trim_prefixes :: "string list \<Rightarrow> string \<Rightarrow> string" where
  "trim_prefixes ws s =
     (case find (\<lambda>w. w \<noteq> [] \<and> prefix w s) ws of
        None \<Rightarrow> s
      | Some w \<Rightarrow> trim_prefixes ws (drop (length w) s))"
  by pat_completeness auto
termination
  by (relation "measure (\<lambda>(ws, s). length s)")
     (auto simp: find_Some_iff prefix_def)

declare trim_prefixes.simps [simp del]

definition TrimLeftSpace :: "string \<Rightarrow> string" where
  "TrimLeftSpace s = trim_prefixes go_spaces s"

definition TrimRightSpace :: "string \<Rightarrow> string" where
  "TrimRightSpace s = rev (trim_prefixes (map rev go_spaces) (rev s))"

text \<open>\<^verbatim>\<open>strings.TrimSpace\<close>. A rune is recognised at either end exactly when its encoding is there:
  the first byte of an encoding is never a continuation byte.\<close>

definition TrimSpace :: "string \<Rightarrow> string" where
  "TrimSpace s = TrimRightSpace (TrimLeftSpace s)"

definition is_blank :: "string \<Rightarrow> bool" where
  "is_blank s \<longleftrightarrow> TrimSpace s = []"

definition no_space_start :: "string list \<Rightarrow> string \<Rightarrow> bool" where
  "no_space_start ws s \<longleftrightarrow> find (\<lambda>w. w \<noteq> [] \<and> prefix w s) ws = None"

lemma trim_prefixes_id: "no_space_start ws s \<Longrightarrow> trim_prefixes ws s = s"
  by (subst trim_prefixes.simps) (simp add: no_space_start_def)

lemma trim_prefixes_no_start: "no_space_start ws (trim_prefixes ws s)"
proof (induction ws s rule: trim_prefixes.induct)
  case (1 ws s)
  then show ?case
    by (subst trim_prefixes.simps) (auto simp: no_space_start_def split: option.splits)
qed

lemma trim_prefixes_suffix: "suffix (trim_prefixes ws s) s"
proof (induction ws s rule: trim_prefixes.induct)
  case (1 ws s)
  show ?case
  proof (cases "find (\<lambda>w. w \<noteq> [] \<and> prefix w s) ws")
    case None
    then show ?thesis by (subst trim_prefixes.simps) simp
  next
    case (Some w)
    have "suffix (trim_prefixes ws (drop (length w) s)) (drop (length w) s)"
      by (rule 1 [OF Some])
    with Some show ?thesis
      by (subst trim_prefixes.simps) (auto intro: suffix_order.trans suffix_drop)
  qed
qed

lemma no_space_start_prefix:
  "no_space_start ws s \<Longrightarrow> prefix t s \<Longrightarrow> no_space_start ws t"
  by (auto simp: no_space_start_def find_None_iff intro: prefix_order.trans)

lemma TrimRightSpace_prefix: "prefix (TrimRightSpace s) s"
  using trim_prefixes_suffix [of "map rev go_spaces" "rev s"]
  by (simp add: TrimRightSpace_def suffix_to_prefix)

text \<open>Trimming a trimmed string changes nothing.\<close>

lemma TrimSpace_ends:
  "no_space_start go_spaces (TrimSpace s)"
  "no_space_start (map rev go_spaces) (rev (TrimSpace s))"
proof -
  have "no_space_start go_spaces (TrimLeftSpace s)"
    by (simp add: TrimLeftSpace_def trim_prefixes_no_start)
  then show "no_space_start go_spaces (TrimSpace s)"
    by (simp add: TrimSpace_def no_space_start_prefix [OF _ TrimRightSpace_prefix])
  show "no_space_start (map rev go_spaces) (rev (TrimSpace s))"
    by (simp add: TrimSpace_def TrimRightSpace_def trim_prefixes_no_start)
qed

lemma TrimSpace_id:
  "no_space_start go_spaces s \<Longrightarrow> no_space_start (map rev go_spaces) (rev s) \<Longrightarrow> TrimSpace s = s"
  by (simp add: TrimSpace_def TrimLeftSpace_def TrimRightSpace_def trim_prefixes_id)

lemma TrimSpace_idem [simp]: "TrimSpace (TrimSpace s) = TrimSpace s"
  by (rule TrimSpace_id) (rule TrimSpace_ends)+

lemma TrimSpace_Nil [simp]: "TrimSpace [] = []"
  by (rule TrimSpace_id) (simp_all add: no_space_start_def go_spaces_def)

lemma is_blank_Nil [simp]: "is_blank []"
  by (simp add: is_blank_def)

lemma is_blank_TrimSpace [simp]: "is_blank (TrimSpace s) = is_blank s"
  by (simp add: is_blank_def)

text \<open>A string whose first and last bytes are not space bytes is left alone.\<close>

definition space_heads :: "char list" where
  "space_heads = map hd go_spaces"

definition space_lasts :: "char list" where
  "space_lasts = map last go_spaces"

lemma no_space_start_hd:
  "c \<notin> set (map hd ws) \<Longrightarrow> no_space_start ws (c # s)"
  by (force simp: no_space_start_def find_None_iff prefix_def Cons_eq_append_conv)

lemma map_hd_rev_go_spaces: "map hd (map rev go_spaces) = space_lasts"
  by (simp add: go_spaces_def space_lasts_def)

lemma TrimSpace_frame:
  assumes "c \<notin> set space_heads" "d \<notin> set space_lasts"
  shows "TrimSpace (c # s @ [d]) = c # s @ [d]"
  using assms
  by (intro TrimSpace_id)
     (simp_all add: no_space_start_hd space_heads_def del: map_map flip: map_hd_rev_go_spaces)

lemma TrimSpace_single:
  assumes "c \<notin> set space_heads" "c \<notin> set space_lasts"
  shows "TrimSpace [c] = [c]"
  using assms
  by (intro TrimSpace_id)
     (simp_all add: no_space_start_hd space_heads_def del: map_map flip: map_hd_rev_go_spaces)

text \<open>A byte that is part of no space is never trimmed away.\<close>

lemma trim_prefixes_keeps:
  "c \<in> set s \<Longrightarrow> c \<notin> set (concat ws) \<Longrightarrow> c \<in> set (trim_prefixes ws s)"
proof (induction ws s rule: trim_prefixes.induct)
  case (1 ws s)
  show ?case
  proof (cases "find (\<lambda>w. w \<noteq> [] \<and> prefix w s) ws")
    case None
    then show ?thesis using 1(2) by (subst trim_prefixes.simps) simp
  next
    case (Some w)
    then have "w \<in> set ws" "prefix w s" by (auto simp: find_Some_iff)
    then have "c \<in> set (drop (length w) s)" using 1(2,3) by (auto simp: prefix_def)
    from 1(1) [OF Some this 1(3)] Some show ?thesis by (subst trim_prefixes.simps) simp
  qed
qed

lemma TrimSpace_keeps: "c \<in> set s \<Longrightarrow> c \<notin> set (concat go_spaces) \<Longrightarrow> c \<in> set (TrimSpace s)"
  unfolding TrimSpace_def TrimLeftSpace_def TrimRightSpace_def
  by (simp only: set_rev) (intro trim_prefixes_keeps; simp add: trim_prefixes_keeps)

section \<open>Lower case\<close>

definition lower_char :: "char \<Rightarrow> char" where
  "lower_char c =
     (let n = of_char c :: nat in if 65 \<le> n \<and> n \<le> 90 then char_of (n + 32) else c)"

text \<open>\<^verbatim>\<open>strings.ToLower\<close>. The ASCII letters are mapped; the two runes beyond ASCII that Go maps
  into ASCII (U+0130 to i, U+212A to k) are mapped too. Every other rune beyond ASCII has an
  image beyond ASCII and is kept: the sources compare the result with ASCII words only.\<close>

fun ToLower :: "string \<Rightarrow> string" where
  "ToLower [] = []"
| "ToLower (c # cs) =
     (if c = CHR 0xC4 \<and> take 1 cs = [CHR 0xB0] then CHR ''i'' # ToLower (drop 1 cs)
      else if c = CHR 0xE2 \<and> take 2 cs = [CHR 0x84, CHR 0xAA] then CHR ''k'' # ToLower (drop 2 cs)
      else lower_char c # ToLower cs)"

section \<open>Replacing, suffixes, splitting\<close>

text \<open>\<^verbatim>\<open>strings.ReplaceAll\<close> for a pattern that is not empty: leftmost occurrences, not overlapping.\<close>

fun ReplaceAll :: "string \<Rightarrow> string \<Rightarrow> string \<Rightarrow> string" where
  "ReplaceAll [] old new = []"
| "ReplaceAll (c # cs) old new =
     (if old \<noteq> [] \<and> prefix old (c # cs)
      then new @ ReplaceAll (drop (length old - 1) cs) old new
      else c # ReplaceAll cs old new)"

lemma ReplaceAll_char:
  "ReplaceAll s [q] new = concat (map (\<lambda>c. if c = q then new else [c]) s)"
  by (induction s) auto

lemma ReplaceAll_char_append:
  "ReplaceAll (s @ t) [q] new = ReplaceAll s [q] new @ ReplaceAll t [q] new"
  by (simp add: ReplaceAll_char)

lemma ReplaceAll_absent: "q \<notin> set s \<Longrightarrow> ReplaceAll s [q] new = s"
  unfolding ReplaceAll_char by (induction s) auto

definition TrimSuffix :: "string \<Rightarrow> string \<Rightarrow> string" where
  "TrimSuffix s suf = (if suffix suf s then take (length s - length suf) s else s)"

lemma TrimSuffix_append [simp]: "TrimSuffix (s @ suf) suf = s"
  by (simp add: TrimSuffix_def)

fun split_on :: "char \<Rightarrow> string \<Rightarrow> string list" where
  "split_on q [] = [[]]"
| "split_on q (c # cs) =
     (if c = q then [] # split_on q cs
      else case split_on q cs of [] \<Rightarrow> [[c]] | w # ws \<Rightarrow> (c # w) # ws)"

fun join_with :: "char \<Rightarrow> string list \<Rightarrow> string" where
  "join_with q [] = []"
| "join_with q [w] = w"
| "join_with q (w # ws) = w @ q # join_with q ws"

lemma split_on_nonempty [simp]: "split_on q s \<noteq> []"
  by (induction s) (auto split: list.splits)

lemma join_split: "join_with q (split_on q s) = s"
proof (induction s)
  case (Cons c cs)
  then show ?case
    by (cases "split_on q cs"; cases "tl (split_on q cs)") (auto simp: neq_Nil_conv split: list.splits)
qed simp

section \<open>Decimal numbers\<close>

definition digit_char :: "nat \<Rightarrow> char" where
  "digit_char d = char_of (48 + d)"

definition is_digit :: "char \<Rightarrow> bool" where
  "is_digit c \<longleftrightarrow> 48 \<le> (of_char c :: nat) \<and> (of_char c :: nat) \<le> 57"

definition digit_val :: "char \<Rightarrow> nat" where
  "digit_val c = of_char c - 48"

fun dec :: "nat \<Rightarrow> string" where
  "dec n = (if n < 10 then [digit_char n] else dec (n div 10) @ [digit_char (n mod 10)])"

declare dec.simps [simp del]

definition dec_val :: "string \<Rightarrow> nat" where
  "dec_val s = foldl (\<lambda>a c. 10 * a + digit_val c) 0 s"

text \<open>\<^verbatim>\<open>strconv.FormatUint(v, 10)\<close>, the verb \<^verbatim>\<open>%d\<close> on a \<^verbatim>\<open>uint64\<close> and \<^verbatim>\<open>strconv.AppendUint\<close>.\<close>

definition FormatUint :: "u64 \<Rightarrow> string" where
  "FormatUint v = dec (unat v)"

definition AppendUint :: "string \<Rightarrow> u64 \<Rightarrow> string" where
  "AppendUint buf v = buf @ FormatUint v"

text \<open>The verb \<^verbatim>\<open>%d\<close> on a Go \<^verbatim>\<open>int\<close>, and \<^verbatim>\<open>%t\<close> or \<^verbatim>\<open>strconv.FormatBool\<close>.\<close>

definition FormatInt :: "int \<Rightarrow> string" where
  "FormatInt i = (if i < 0 then CHR ''-'' # dec (nat (- i)) else dec (nat i))"

definition FormatBool :: "bool \<Rightarrow> string" where
  "FormatBool b = (if b then ''true'' else ''false'')"

lemma of_char_digit_char [simp]: "d < 10 \<Longrightarrow> of_char (digit_char d) = 48 + d"
  by (simp add: digit_char_def)

lemma is_digit_digit_char [simp]: "d < 10 \<Longrightarrow> is_digit (digit_char d)"
  by (simp add: is_digit_def)

lemma digit_val_digit_char [simp]: "d < 10 \<Longrightarrow> digit_val (digit_char d) = d"
  by (simp add: digit_val_def)

lemma dec_digits: "\<forall>c \<in> set (dec n). is_digit c"
proof (induction n rule: dec.induct)
  case (1 n)
  then show ?case
    by (subst dec.simps) auto
qed

lemma dec_nonempty [simp]: "dec n \<noteq> []"
  by (subst dec.simps) simp

lemma dec_val_dec [simp]: "dec_val (dec n) = n"
proof (induction n rule: dec.induct)
  case (1 n)
  then show ?case
    by (subst dec.simps) (auto simp: dec_val_def)
qed

lemma dec_inject [simp]: "dec m = dec n \<longleftrightarrow> m = n"
  by (metis dec_val_dec)

lemma digit_char_zero: "digit_char 0 = CHR ''0''"
  by code_simp

lemma digit_char_evals:
  "digit_char 1 = CHR ''1''" "digit_char (Suc 0) = CHR ''1''" "digit_char 2 = CHR ''2''"
  "digit_char 3 = CHR ''3''" "digit_char 4 = CHR ''4''" "digit_char 5 = CHR ''5''"
  "digit_char 6 = CHR ''6''" "digit_char 7 = CHR ''7''" "digit_char 8 = CHR ''8''"
  "digit_char 9 = CHR ''9''"
  by code_simp+

text \<open>Rules that evaluate decimal formatting on numerals.\<close>

lemmas dec_eval = dec.simps digit_char_zero digit_char_evals

text \<open>A decimal number has no leading zero.\<close>

lemma dec_hd_zero: "hd (dec n) = CHR ''0'' \<longleftrightarrow> n = 0"
proof (induction n rule: dec.induct)
  case (1 n)
  have zero: "digit_char d = CHR ''0'' \<longleftrightarrow> d = 0" if "d < 10" for d
    using that by (metis digit_val_digit_char digit_char_zero zero_less_numeral)
  from 1 show ?case
    by (subst dec.simps) (auto simp: zero)
qed

lemma dec_zero: "dec 0 = ''0''"
  by (subst dec.simps) (simp add: digit_char_zero)

lemma FormatUint_digits: "\<forall>c \<in> set (FormatUint v). is_digit c"
  by (simp add: FormatUint_def dec_digits)

lemma FormatUint_nonempty [simp]: "FormatUint v \<noteq> []"
  by (simp add: FormatUint_def)

lemma FormatUint_inject [simp]: "FormatUint v = FormatUint w \<longleftrightarrow> v = w"
  by (simp add: FormatUint_def word_unat_eq_iff)

section \<open>Paths\<close>

fun ext_scan :: "string \<Rightarrow> string \<Rightarrow> string" where
  "ext_scan [] acc = []"
| "ext_scan (c # cs) acc =
     (if c = CHR ''/'' then []
      else if c = CHR ''.'' then c # acc
      else ext_scan cs (c # acc))"

text \<open>\<^verbatim>\<open>filepath.Ext\<close>: from the last dot of the last path element, else empty.\<close>

definition Ext :: "string \<Rightarrow> string" where
  "Ext path = ext_scan (rev path) []"

lemma ext_scan_suffix: "suffix (ext_scan cs acc) (rev cs @ acc)"
  by (induction cs acc rule: ext_scan.induct) (auto simp: suffix_def)

lemma Ext_suffix: "suffix (Ext path) path"
  using ext_scan_suffix [of "rev path" "[]"] by (simp add: Ext_def)

definition clean_step :: "bool \<Rightarrow> string \<Rightarrow> string list \<Rightarrow> string list" where
  "clean_step rooted w stack =
     (if w = [] \<or> w = ''.'' then stack
      else if w = ''..'' then
        (if stack \<noteq> [] \<and> hd stack \<noteq> ''..'' then tl stack
         else if rooted then stack else w # stack)
      else w # stack)"

text \<open>\<^verbatim>\<open>filepath.Clean\<close>.\<close>

definition Clean :: "string \<Rightarrow> string" where
  "Clean path =
     (if path = [] then ''.'' else
      let rooted = (hd path = CHR ''/'');
          body = join_with (CHR ''/'')
                   (rev (fold (clean_step rooted) (split_on (CHR ''/'') path) []))
      in if rooted then CHR ''/'' # body else if body = [] then ''.'' else body)"

text \<open>\<^verbatim>\<open>filepath.Dir\<close>: the cleaned part up to the last separator.\<close>

definition Dir :: "string \<Rightarrow> string" where
  "Dir path = Clean (rev (dropWhile (\<lambda>c. c \<noteq> CHR ''/'') (rev path)))"

lemma Clean_nonempty [simp]: "Clean path \<noteq> []"
  by (simp add: Clean_def Let_def)

lemma Dir_nonempty [simp]: "Dir path \<noteq> []"
  by (simp add: Dir_def)

lemma Dir_no_separator: "CHR ''/'' \<notin> set path \<Longrightarrow> Dir path = ''.''"
proof -
  assume "CHR ''/'' \<notin> set path"
  then have "dropWhile (\<lambda>c. c \<noteq> CHR ''/'') (rev path) = []"
    by (auto simp: dropWhile_eq_Nil_conv)
  then show ?thesis by (simp add: Dir_def Clean_def)
qed

end
