(* ===== verification/Go_Bufio.thy ===== *)
theory Go_Bufio
  imports Go_Strings
begin

text \<open>
  Output and input of the sources: files and pipes that accept a bounded number of bytes, the
  buffered writer \<^verbatim>\<open>bufio.Writer\<close> over any sink that keeps the contract of \<^verbatim>\<open>io.Writer\<close> (locale
  \<open>byte_sink\<close>, interpreted for files and pipes), and the line splitting of \<^verbatim>\<open>bufio.Scanner\<close>.
\<close>

section \<open>Sinks\<close>

text \<open>An open file: the bytes it holds and the number of bytes it will still take before writes
  fail (a full or failing disk). A write stores what fits; a short write is an error.\<close>

record os_file =
  file_bytes :: bytes
  file_room :: nat
  file_open :: bool

definition os_write :: "os_file \<Rightarrow> bytes \<Rightarrow> os_file \<times> nat \<times> bool" where
  "os_write f p =
     (if \<not> file_open f then (f, 0, True) else
      let n = min (length p) (file_room f)
      in (f\<lparr>file_bytes := file_bytes f @ take n p, file_room := file_room f - n\<rparr>, n, n < length p))"

definition os_close :: "os_file \<Rightarrow> os_file \<times> bool" where
  "os_close f = (f\<lparr>file_open := False\<rparr>, \<not> file_open f)"

text \<open>The standard input of a child process: the bytes the child was sent and the number it
  will still read before the pipe breaks.\<close>

record pipe =
  pipe_sent :: bytes
  pipe_room :: nat

definition pipe_write :: "pipe \<Rightarrow> bytes \<Rightarrow> pipe \<times> nat \<times> bool" where
  "pipe_write f p =
     (let n = min (length p) (pipe_room f)
      in (f\<lparr>pipe_sent := pipe_sent f @ take n p, pipe_room := pipe_room f - n\<rparr>, n, n < length p))"

section \<open>The buffered writer\<close>

record 'f bufio =
  bw_buf :: bytes
  bw_size :: nat
  bw_err :: bool
  bw_sink :: 'f

definition NewWriterSize :: "'f \<Rightarrow> nat \<Rightarrow> 'f bufio" where
  "NewWriterSize f n = \<lparr>bw_buf = [], bw_size = n, bw_err = False, bw_sink = f\<rparr>"

definition bw_avail :: "'f bufio \<Rightarrow> nat" where
  "bw_avail b = bw_size b - length (bw_buf b)"

text \<open>\<^verbatim>\<open>(*bufio.Writer).Flush\<close>: the boolean is the returned error.\<close>

definition bw_flush :: "('f \<Rightarrow> bytes \<Rightarrow> 'f \<times> nat \<times> bool) \<Rightarrow> 'f bufio \<Rightarrow> 'f bufio \<times> bool" where
  "bw_flush wr b =
     (if bw_err b then (b, True)
      else if bw_buf b = [] then (b, False)
      else case wr (bw_sink b) (bw_buf b) of (f, n, e) \<Rightarrow>
        if e \<or> n < length (bw_buf b)
        then (b\<lparr>bw_buf := drop n (bw_buf b), bw_err := True, bw_sink := f\<rparr>, True)
        else (b\<lparr>bw_buf := [], bw_sink := f\<rparr>, False))"

text \<open>The loop of \<^verbatim>\<open>(*bufio.Writer).Write\<close>: while the data does not fit, write it straight to
  the sink if the buffer is empty, else fill the buffer and flush it. Two rounds are enough
  for a sink that keeps the contract (lemma \<open>bw_loop_done\<close>).\<close>

fun bw_loop ::
  "nat \<Rightarrow> ('f \<Rightarrow> bytes \<Rightarrow> 'f \<times> nat \<times> bool) \<Rightarrow> 'f bufio \<Rightarrow> bytes \<Rightarrow> 'f bufio \<times> bytes" where
  "bw_loop 0 wr b p = (b, p)"
| "bw_loop (Suc k) wr b p =
     (if bw_avail b < length p \<and> \<not> bw_err b then
        if bw_buf b = [] then
          (case wr (bw_sink b) p of (f, n, e) \<Rightarrow>
             bw_loop k wr (b\<lparr>bw_sink := f, bw_err := e\<rparr>) (drop n p))
        else
          bw_loop k wr (fst (bw_flush wr (b\<lparr>bw_buf := bw_buf b @ take (bw_avail b) p\<rparr>)))
            (drop (bw_avail b) p)
      else (b, p))"

definition bw_write :: "('f \<Rightarrow> bytes \<Rightarrow> 'f \<times> nat \<times> bool) \<Rightarrow> 'f bufio \<Rightarrow> bytes \<Rightarrow> 'f bufio \<times> bool" where
  "bw_write wr b p =
     (case bw_loop 2 wr b p of (b', p') \<Rightarrow>
        if bw_err b' then (b', True) else (b'\<lparr>bw_buf := bw_buf b' @ p'\<rparr>, False))"

definition bw_ok :: "'f bufio \<Rightarrow> bool" where
  "bw_ok b \<longleftrightarrow> length (bw_buf b) \<le> bw_size b"

section \<open>The contract of a sink and what buffering keeps\<close>

locale byte_sink =
  fixes wr :: "'f \<Rightarrow> bytes \<Rightarrow> 'f \<times> nat \<times> bool"
    and out :: "'f \<Rightarrow> bytes"
  assumes wr_appends: "wr f p = (f', n, e) \<Longrightarrow> out f' = out f @ take n p"
    and wr_bound: "wr f p = (f', n, e) \<Longrightarrow> n \<le> length p"
    and wr_short: "wr f p = (f', n, e) \<Longrightarrow> n < length p \<Longrightarrow> e"
begin

text \<open>Everything accepted so far: what reached the sink, then what waits in the buffer.\<close>

definition stream :: "'f bufio \<Rightarrow> bytes" where
  "stream b = out (bw_sink b) @ bw_buf b"

lemma stream_buf_update: "stream (b\<lparr>bw_buf := bw_buf b @ p\<rparr>) = stream b @ p"
  by (simp add: stream_def)

lemma wr_all: "wr f p = (f', n, False) \<Longrightarrow> n = length p"
  by (metis wr_bound wr_short le_neq_implies_less)

lemma flush_stream: "bw_flush wr b = (b', e) \<Longrightarrow> stream b' = stream b"
  by (auto simp: bw_flush_def stream_def split: if_splits prod.splits dest: wr_appends)

lemma flush_ok: "bw_flush wr b = (b', e) \<Longrightarrow> bw_ok b \<Longrightarrow> bw_ok b'"
  by (auto simp: bw_flush_def bw_ok_def split: if_splits prod.splits)

lemma flush_size: "bw_flush wr b = (b', e) \<Longrightarrow> bw_size b' = bw_size b"
  by (auto simp: bw_flush_def split: if_splits prod.splits)

lemma flush_err: "bw_flush wr b = (b', e) \<Longrightarrow> bw_err b' = e"
  by (auto simp: bw_flush_def split: if_splits prod.splits)

lemma flush_empties: "bw_flush wr b = (b', False) \<Longrightarrow> bw_buf b' = []"
  by (auto simp: bw_flush_def split: if_splits prod.splits)

lemma flush_delivers: "bw_flush wr b = (b', False) \<Longrightarrow> out (bw_sink b') = stream b"
  using flush_stream flush_empties by (fastforce simp: stream_def)

lemma loop_ok: "bw_loop k wr b p = (b', p') \<Longrightarrow> bw_ok b \<Longrightarrow> bw_ok b' \<and> bw_size b' = bw_size b"
proof (induction k arbitrary: b p)
  case (Suc k)
  show ?case
  proof (cases "bw_avail b < length p \<and> \<not> bw_err b \<and> bw_buf b \<noteq> []")
    case True
    let ?c = "b\<lparr>bw_buf := bw_buf b @ take (bw_avail b) p\<rparr>"
    have c: "bw_ok ?c" using True Suc.prems(2) by (simp add: bw_ok_def bw_avail_def)
    obtain d e where d: "bw_flush wr ?c = (d, e)" by (cases "bw_flush wr ?c")
    from Suc.IH [of d] Suc.prems True d c show ?thesis
      by (auto simp: flush_ok dest: flush_size)
  next
    case False
    with Suc show ?thesis
      by (fastforce simp: bw_ok_def split: if_splits prod.splits)
  qed
qed simp

text \<open>As long as the error flag is down nothing is lost, doubled or reordered.\<close>

lemma loop_stream:
  "bw_loop k wr b p = (b', p') \<Longrightarrow> \<not> bw_err b' \<Longrightarrow> stream b' @ p' = stream b @ p"
proof (induction k arbitrary: b p)
  case (Suc k)
  show ?case
  proof (cases "bw_avail b < length p \<and> \<not> bw_err b")
    case False
    then have "bw_loop (Suc k) wr b p = (b, p)" by (simp only: bw_loop.simps if_False)
    with Suc.prems show ?thesis by simp
  next
    case grow: True
    show ?thesis
    proof (cases "bw_buf b = []")
      case True
      obtain f n e where w: "wr (bw_sink b) p = (f, n, e)" by (cases "wr (bw_sink b) p")
      have "stream (b\<lparr>bw_sink := f, bw_err := e\<rparr>) @ drop n p = stream b @ p"
        using True wr_appends [OF w] by (simp add: stream_def)
      with Suc.IH [of "b\<lparr>bw_sink := f, bw_err := e\<rparr>" "drop n p"] Suc.prems True grow w show ?thesis by simp
    next
      case False
      let ?c = "b\<lparr>bw_buf := bw_buf b @ take (bw_avail b) p\<rparr>"
      have "stream (fst (bw_flush wr ?c)) @ drop (bw_avail b) p = stream b @ p"
        using flush_stream [OF prod.collapse [symmetric], of ?c] by (simp add: stream_buf_update)
      with Suc.IH [of "fst (bw_flush wr ?c)"] Suc.prems False grow show ?thesis by simp
    qed
  qed
qed simp

lemma loop_exit: "bw_err b \<Longrightarrow> bw_loop k wr b p = (b, p)"
  by (cases k) simp_all

lemma loop_skip: "\<not> (bw_avail b < length p \<and> \<not> bw_err b) \<Longrightarrow> bw_loop k wr b p = (b, p)"
  by (cases k) (auto simp only: bw_loop.simps if_False)

lemma loop_empty: "bw_loop k wr b [] = (b, [])"
  by (rule loop_skip) simp

text \<open>With an empty buffer one round is enough: the sink takes everything or fails.\<close>

lemma loop_direct:
  assumes "bw_loop (Suc k) wr b p = (b', p')" "bw_buf b = []"
  shows "bw_err b' \<or> length p' \<le> bw_avail b'"
proof (cases "bw_avail b < length p \<and> \<not> bw_err b")
  case True
  obtain f n e where w: "wr (bw_sink b) p = (f, n, e)" by (cases "wr (bw_sink b) p")
  show ?thesis
  proof (cases e)
    case True
    with assms \<open>bw_avail b < length p \<and> \<not> bw_err b\<close> w show ?thesis by (auto simp: loop_exit)
  next
    case False
    with w have "n = length p" using wr_all by simp
    with assms \<open>bw_avail b < length p \<and> \<not> bw_err b\<close> w show ?thesis by (auto simp: loop_empty)
  qed
next
  case False
  with loop_skip [OF False, of "Suc k"] assms(1) show ?thesis by auto
qed

text \<open>Two rounds are enough: after them the rest fits or the error is set.\<close>

lemma bw_loop_done:
  assumes "bw_ok b" "bw_loop 2 wr b p = (b', p')"
  shows "bw_err b' \<or> length p' \<le> bw_avail b'"
proof -
  have two: "bw_loop (Suc (Suc 0)) wr b p = (b', p')" using assms(2) by (simp add: numeral_2_eq_2)
  consider "\<not> (bw_avail b < length p \<and> \<not> bw_err b)" | "bw_buf b = []"
    | "bw_avail b < length p" "\<not> bw_err b" "bw_buf b \<noteq> []" by blast
  then show ?thesis
  proof cases
    case 1
    with loop_skip [OF 1, of 2] assms(2) show ?thesis by auto
  next
    case 2
    with loop_direct [OF two] show ?thesis .
  next
    case 3
    let ?c = "b\<lparr>bw_buf := bw_buf b @ take (bw_avail b) p\<rparr>"
    obtain d e where d: "bw_flush wr ?c = (d, e)" by (cases "bw_flush wr ?c")
    have l: "bw_loop (Suc 0) wr d (drop (bw_avail b) p) = (b', p')"
      using two 3 d by (simp only: bw_loop.simps(2) [of "Suc 0"] if_True if_False fst_conv simp_thms)
    show ?thesis
    proof (cases e)
      case True
      then have "bw_err d" using flush_err [OF d] by simp
      with l loop_exit [of d "Suc 0"] show ?thesis by simp
    next
      case False
      then show ?thesis using loop_direct [OF l] flush_empties [of ?c d] d by simp
    qed
  qed
qed

lemma write_ok: "bw_write wr b p = (b', e) \<Longrightarrow> bw_ok b \<Longrightarrow> bw_ok b'"
proof -
  assume w: "bw_write wr b p = (b', e)" and ok: "bw_ok b"
  obtain c q where l: "bw_loop 2 wr b p = (c, q)" by (cases "bw_loop 2 wr b p")
  from loop_ok [OF l ok] bw_loop_done [OF ok l] w l show ?thesis
    by (auto simp: bw_write_def bw_ok_def bw_avail_def split: if_splits)
qed

lemma write_stream: "bw_write wr b p = (b', False) \<Longrightarrow> stream b' = stream b @ p"
  by (auto simp: bw_write_def stream_buf_update split: prod.splits if_splits dest: loop_stream)

lemma write_err: "bw_write wr b p = (b', e) \<Longrightarrow> bw_err b' = e"
  by (auto simp: bw_write_def split: prod.splits if_splits)

text \<open>With or without an error the sink only ever holds a prefix of what was handed over.\<close>

lemma loop_prefix:
  "bw_loop k wr b p = (b', p') \<Longrightarrow> prefix (out (bw_sink b')) (stream b @ p)"
proof (induction k arbitrary: b p)
  case (Suc k)
  show ?case
  proof (cases "bw_avail b < length p \<and> \<not> bw_err b")
    case False
    then have "bw_loop (Suc k) wr b p = (b, p)" by (simp only: bw_loop.simps if_False)
    with Suc.prems show ?thesis by (simp add: stream_def)
  next
    case grow: True
    show ?thesis
    proof (cases "bw_buf b = []")
      case True
      obtain f n e where w: "wr (bw_sink b) p = (f, n, e)" by (cases "wr (bw_sink b) p")
      have "stream (b\<lparr>bw_sink := f, bw_err := e\<rparr>) @ drop n p = stream b @ p"
        using True wr_appends [OF w] by (simp add: stream_def)
      with Suc.IH [of "b\<lparr>bw_sink := f, bw_err := e\<rparr>" "drop n p"] Suc.prems True grow w show ?thesis by simp
    next
      case False
      let ?c = "b\<lparr>bw_buf := bw_buf b @ take (bw_avail b) p\<rparr>"
      have "stream (fst (bw_flush wr ?c)) @ drop (bw_avail b) p = stream b @ p"
        using flush_stream [OF prod.collapse [symmetric], of ?c] by (simp add: stream_buf_update)
      moreover have "bw_loop k wr (fst (bw_flush wr ?c)) (drop (bw_avail b) p) = (b', p')"
        using Suc.prems False grow by simp
      ultimately show ?thesis using Suc.IH by metis
    qed
  qed
qed (simp add: stream_def)

lemma write_prefix: "bw_write wr b p = (b', e) \<Longrightarrow> prefix (out (bw_sink b')) (stream b @ p)"
  by (auto simp: bw_write_def split: prod.splits if_splits dest: loop_prefix)

lemma flush_prefix: "bw_flush wr b = (b', e) \<Longrightarrow> prefix (out (bw_sink b')) (stream b)"
  by (drule flush_stream) (metis prefixI stream_def)

text \<open>A set error is sticky: later writes and flushes reach the sink no more.\<close>

lemma flush_grows: "bw_flush wr b = (b', e) \<Longrightarrow> prefix (out (bw_sink b)) (out (bw_sink b'))"
  by (auto simp: bw_flush_def split: if_splits prod.splits dest: wr_appends)

lemma loop_grows: "bw_loop k wr b p = (b', p') \<Longrightarrow> prefix (out (bw_sink b)) (out (bw_sink b'))"
proof (induction k arbitrary: b p)
  case (Suc k)
  obtain f n e where w: "wr (bw_sink b) p = (f, n, e)" by (cases "wr (bw_sink b) p")
  obtain b1 e1 where f: "bw_flush wr (b\<lparr>bw_buf := bw_buf b @ take (bw_avail b) p\<rparr>) = (b1, e1)"
    by (cases "bw_flush wr (b\<lparr>bw_buf := bw_buf b @ take (bw_avail b) p\<rparr>)")
  have "prefix (out (bw_sink b)) (out f)" "prefix (out (bw_sink b)) (out (bw_sink b1))"
    using wr_appends [OF w] flush_grows [OF f] by simp_all
  with Suc.prems Suc.IH [of "b\<lparr>bw_sink := f, bw_err := e\<rparr>" "drop n p"] Suc.IH [of b1 "drop (bw_avail b) p"] w f show ?case
    by (auto split: if_splits intro: prefix_order.trans)
qed simp

lemma write_grows: "bw_write wr b p = (b', e) \<Longrightarrow> prefix (out (bw_sink b)) (out (bw_sink b'))"
  using loop_grows [of 2 b p] by (auto simp: bw_write_def split: prod.splits if_splits)

lemma write_stuck: "bw_err b \<Longrightarrow> bw_write wr b p = (b, True)"
  by (simp add: bw_write_def loop_exit)

lemma flush_stuck: "bw_err b \<Longrightarrow> bw_flush wr b = (b, True)"
  by (simp add: bw_flush_def)

end

interpretation osf: byte_sink os_write file_bytes
  by unfold_locales (auto simp: os_write_def Let_def split: if_splits)

interpretation pip: byte_sink pipe_write pipe_sent
  by unfold_locales (auto simp: pipe_write_def Let_def)

text \<open>A sink that says how much it will still take: as long as that is enough no write fails.\<close>

locale roomy_sink = byte_sink +
  fixes room :: "'a \<Rightarrow> nat"
  assumes wr_room: "p \<noteq> [] \<Longrightarrow> length p \<le> room f \<Longrightarrow>
    \<exists>f'. wr f p = (f', length p, False) \<and> room f' = room f - length p"
begin

text \<open>No error so far and room for what is buffered and \<open>k\<close> bytes more.\<close>

definition fits :: "'a bufio \<Rightarrow> nat \<Rightarrow> bool" where
  "fits b k \<longleftrightarrow> \<not> bw_err b \<and> length (bw_buf b) + k \<le> room (bw_sink b)"

lemma fits_mono: "fits b k \<Longrightarrow> j \<le> k \<Longrightarrow> fits b j"
  by (simp add: fits_def)

lemma flush_fits: "fits b k \<Longrightarrow> fits (fst (bw_flush wr b)) k \<and> \<not> snd (bw_flush wr b)"
  using wr_room [of "bw_buf b" "bw_sink b"] by (auto simp: fits_def bw_flush_def)

lemma loop_fits:
  "fits b (length p + k) \<Longrightarrow> bw_loop n wr b p = (b', p') \<Longrightarrow> fits b' (length p' + k)"
proof (induction n arbitrary: b p)
  case (Suc n)
  show ?case
  proof (cases "bw_avail b < length p \<and> \<not> bw_err b")
    case False
    then have "bw_loop (Suc n) wr b p = (b, p)" by (simp only: bw_loop.simps if_False)
    with Suc.prems show ?thesis by simp
  next
    case grow: True
    show ?thesis
    proof (cases "bw_buf b = []")
      case True
      have "p \<noteq> []" using grow by auto
      then obtain f where "wr (bw_sink b) p = (f, length p, False)" "room f = room (bw_sink b) - length p"
        using wr_room [of p "bw_sink b"] Suc.prems(1) by (auto simp: fits_def)
      with True grow Suc.prems Suc.IH [of "b\<lparr>bw_sink := f, bw_err := False\<rparr>" "[]"] show ?thesis
        by (simp add: fits_def)
    next
      case False
      have "fits (b\<lparr>bw_buf := bw_buf b @ take (bw_avail b) p\<rparr>) (length (drop (bw_avail b) p) + k)"
        using Suc.prems(1) grow by (simp add: fits_def)
      with flush_fits have "fits (fst (bw_flush wr (b\<lparr>bw_buf := bw_buf b @ take (bw_avail b) p\<rparr>)))
          (length (drop (bw_avail b) p) + k)" by blast
      from Suc.IH [OF this] Suc.prems(2) grow False show ?thesis by simp
    qed
  qed
qed simp

lemma write_fits: "fits b (length p + k) \<Longrightarrow> fits (fst (bw_write wr b p)) k \<and> \<not> snd (bw_write wr b p)"
  using loop_fits [of b p k 2] by (fastforce simp: bw_write_def fits_def split: prod.splits)

end

definition os_room :: "os_file \<Rightarrow> nat" where
  "os_room f = (if file_open f then file_room f else 0)"

interpretation osf: roomy_sink os_write file_bytes os_room
  by unfold_locales (auto simp: os_write_def os_room_def Let_def split: if_splits)

interpretation pip: roomy_sink pipe_write pipe_sent pipe_room
  by unfold_locales (simp add: pipe_write_def Let_def)

section \<open>Splitting input into lines\<close>

text \<open>The lines of \<^verbatim>\<open>bufio.ScanLines\<close>: split at newlines, no empty line after a final newline,
  one carriage return dropped at the end of a line.\<close>

definition raw_lines :: "bytes \<Rightarrow> bytes list" where
  "raw_lines s = (let ps = split_on newline s in if last ps = [] then butlast ps else ps)"

definition drop_cr :: "bytes \<Rightarrow> bytes" where
  "drop_cr s = (if s \<noteq> [] \<and> last s = CHR 0x0D then butlast s else s)"

text \<open>\<^verbatim>\<open>bufio.Scanner\<close> with a largest buffer of \<open>n\<close> bytes: the tokens before the first line of
  \<open>n\<close> bytes or more, and whether such a line stopped the scan with \<^verbatim>\<open>ErrTooLong\<close>.\<close>

definition scan_lines :: "nat \<Rightarrow> bytes \<Rightarrow> bytes list \<times> bool" where
  "scan_lines n s =
     (let raw = raw_lines s; good = takeWhile (\<lambda>l. length l < n) raw
      in (map drop_cr good, length good < length raw))"

lemma split_on_append:
  "q \<notin> set l \<Longrightarrow> split_on q (l @ q # s) = l # split_on q s"
  by (induction l) auto

lemma raw_lines_Nil [simp]: "raw_lines [] = []"
  by (simp add: raw_lines_def)

lemma raw_lines_line:
  "newline \<notin> set l \<Longrightarrow> raw_lines (l @ newline # s) = l # raw_lines s"
  by (simp add: raw_lines_def split_on_append Let_def)

lemma raw_lines_concat:
  "\<forall>l \<in> set ls. newline \<notin> set l \<Longrightarrow> raw_lines (concat (map (\<lambda>l. l @ [newline]) ls)) = ls"
  by (induction ls) (auto simp: raw_lines_line)

end
