(* ===== verification/Jsonl.thy ===== *)
theory Jsonl
  imports Station_Data Go_Bufio
begin

text \<open>
  The log writer of \<^verbatim>\<open>structure/jsonl.go\<close>: hexadecimal formatting, the JSON line of one harvested
  slot, and the \<^verbatim>\<open>StationWriter\<close> over a buffered file. The facts: the text of a line, its length,
  the round trip of the hexadecimal address, and what reaches the file.
\<close>

section \<open>Hexadecimal\<close>

definition hexChars :: string where
  "hexChars = ''0123456789abcdef''"

definition appendHex :: "bytes \<Rightarrow> u64 \<Rightarrow> bytes" where
  "appendHex dst v =
     foldl (\<lambda>d i. d @ [hexChars ! unat (drop_bit (i * 4) v AND 0xf)]) (dst @ ''0x'') (rev [0..<16])"

section \<open>One line\<close>

definition marshalSafeSlotJSONL ::
  "StationData \<Rightarrow> bytes \<Rightarrow> u64 \<Rightarrow> u64 \<Rightarrow> u64 \<Rightarrow> bool \<Rightarrow> u64 \<Rightarrow> bytes" where
  "marshalSafeSlotJSONL s buf safeSeq tid addr isActive ts =
     (let buf = buf @ ''{\"probe_id\":'';
          buf = AppendUint buf (ProbeID (Header s));
          buf = buf @ '',\"tid\":'';
          buf = AppendUint buf tid;
          buf = buf @ '',\"addr\":\"'';
          buf = appendHex buf addr;
          buf = buf @ ''\",\"seq\":'';
          buf = AppendUint buf safeSeq;
          buf = buf @ '',\"is_active\":'';
          buf = (if isActive then buf @ ''true'' else buf @ ''false'');
          buf = buf @ '',\"ts\":'';
          buf = AppendUint buf ts;
          buf = buf @ ''}'' @ [newline]
      in buf)"

section \<open>The writer\<close>

text \<open>The buffered writer's sink is the log file, so \<^verbatim>\<open>sw.file\<close> is the sink of \<^verbatim>\<open>sw.writer\<close>.\<close>

record StationWriter =
  sw_writer :: "os_file bufio"
  sw_line :: bytes

type_synonym os_err = string

text \<open>The argument is the outcome of \<^verbatim>\<open>os.OpenFile(filename, O_CREATE|O_WRONLY|O_APPEND, 0644)\<close>: an
  error, or the file with the bytes it already holds.\<close>

definition NewStationWriter :: "os_err + os_file \<Rightarrow> os_err + StationWriter" where
  "NewStationWriter opened =
     (case opened of
        Inl err \<Rightarrow> Inl err
      | Inr f \<Rightarrow> Inr \<lparr>sw_writer = NewWriterSize f (128 * 1024), sw_line = []\<rparr>)"

definition WriteSafeSlot ::
  "StationWriter \<Rightarrow> StationData \<Rightarrow> u64 \<Rightarrow> u64 \<Rightarrow> u64 \<Rightarrow> bool \<Rightarrow> u64 \<Rightarrow> StationWriter \<times> bool" where
  "WriteSafeSlot sw s safeSeq tid addr isActive ts =
     (let sw = sw\<lparr>sw_line := marshalSafeSlotJSONL s (take 0 (sw_line sw)) safeSeq tid addr isActive ts\<rparr>
      in case bw_write os_write (sw_writer sw) (sw_line sw) of
           (w, err) \<Rightarrow> (sw\<lparr>sw_writer := w\<rparr>, err))"

definition sw_Flush :: "StationWriter \<Rightarrow> StationWriter \<times> bool" where
  "sw_Flush sw = (case bw_flush os_write (sw_writer sw) of (w, err) \<Rightarrow> (sw\<lparr>sw_writer := w\<rparr>, err))"

definition sw_Close :: "StationWriter \<Rightarrow> StationWriter \<times> bool" where
  "sw_Close sw =
     (let sw = fst (sw_Flush sw);
          (f, err) = os_close (bw_sink (sw_writer sw))
      in (sw\<lparr>sw_writer := (sw_writer sw)\<lparr>bw_sink := f\<rparr>\<rparr>, err))"

text \<open>What the log file holds, and everything handed to the writer so far.\<close>

definition sw_file :: "StationWriter \<Rightarrow> bytes" where
  "sw_file sw = file_bytes (bw_sink (sw_writer sw))"

definition sw_stream :: "StationWriter \<Rightarrow> bytes" where
  "sw_stream sw = osf.stream (sw_writer sw)"

definition sw_ok :: "StationWriter \<Rightarrow> bool" where
  "sw_ok sw \<longleftrightarrow> bw_ok (sw_writer sw)"

abbreviation sw_failed :: "StationWriter \<Rightarrow> bool" where
  "sw_failed sw \<equiv> bw_err (sw_writer sw)"

section \<open>Facts on hexadecimal\<close>

definition hex_digit_val :: "char \<Rightarrow> nat option" where
  "hex_digit_val c =
     (let n = of_char c :: nat in
      if 48 \<le> n \<and> n \<le> 57 then Some (n - 48)
      else if 97 \<le> n \<and> n \<le> 102 then Some (n - 87) else None)"

fun hex_val :: "nat \<Rightarrow> string \<Rightarrow> nat option" where
  "hex_val a [] = Some a"
| "hex_val a (c # cs) = (case hex_digit_val c of None \<Rightarrow> None | Some d \<Rightarrow> hex_val (16 * a + d) cs)"

text \<open>The reference reader of an address: \<open>0x\<close> and hexadecimal digits.\<close>

definition parse_addr :: "string \<Rightarrow> u64 option" where
  "parse_addr s =
     (if take 2 s = ''0x'' then map_option word_of_nat (hex_val 0 (drop 2 s)) else None)"

definition nibble :: "u64 \<Rightarrow> nat \<Rightarrow> nat" where
  "nibble v i = unat v div 16 ^ i mod 16"

lemma nibble_eq: "unat (drop_bit (i * 4) v AND 0xf) = nibble v i" for v :: u64
proof -
  have "drop_bit (i * 4) v AND 0xf = take_bit 4 (drop_bit (i * 4) v)"
    by (simp add: take_bit_eq_mask mask_eq_exp_minus_1)
  then have "unat (drop_bit (i * 4) v AND 0xf) = take_bit 4 (unat (drop_bit (i * 4) v))"
    by (simp only: unsigned_take_bit_eq)
  also have "unat (drop_bit (i * 4) v) = drop_bit (i * 4) (unat v)"
    by (simp only: unat_drop_bit_eq)
  also have "take_bit 4 (drop_bit (i * 4) (unat v)) = unat v div 2 ^ (i * 4) mod 2 ^ 4"
    by (simp only: take_bit_eq_mod drop_bit_eq_div)
  also have "(2::nat) ^ (i * 4) = 16 ^ i"
    using power_mult [of "2::nat" 4 i] by (simp add: mult.commute)
  finally show ?thesis by (simp add: nibble_def)
qed

lemma hexChars_val: "d < 16 \<Longrightarrow> hex_digit_val (hexChars ! d) = Some d"
proof -
  have "\<forall>d \<in> set [0..<16]. hex_digit_val (hexChars ! d) = Some d" by code_simp
  then show "d < 16 \<Longrightarrow> ?thesis" by simp
qed

lemma nibble_less [simp]: "nibble v i < 16"
  by (simp add: nibble_def)

lemma appendHex_eq: "appendHex dst v = dst @ ''0x'' @ map (\<lambda>i. hexChars ! nibble v i) (rev [0..<16])"
  unfolding appendHex_def nibble_eq foldl_append_concat
  by (simp add: concat_map_single)

lemma hex_val_nibbles:
  "hex_val a (map (\<lambda>i. hexChars ! nibble v i) (rev [0..<n])) = Some (a * 16 ^ n + unat v mod 16 ^ n)"
proof (induction n arbitrary: a)
  case (Suc n)
  have "unat v mod 16 ^ Suc n = nibble v n * 16 ^ n + unat v mod 16 ^ n"
    using mod_mult2_eq [of "unat v" "16 ^ n" 16]
    by (simp add: nibble_def mult.commute)
  with Suc show ?case by (simp add: hexChars_val algebra_simps)
qed simp

lemma length_appendHex [simp]: "length (appendHex dst v) = length dst + 18"
  by (simp add: appendHex_eq)

lemma parse_addr_appendHex: "parse_addr (appendHex [] v) = Some v"
  using hex_val_nibbles [of 0 v 16]
  by (simp add: appendHex_eq parse_addr_def)

lemma hexChars_in: "d < 16 \<Longrightarrow> hexChars ! d \<in> set hexChars"
  by (rule nth_mem) (simp add: hexChars_def)

lemma appendHex_chars: "set (appendHex [] v) \<subseteq> set hexChars \<union> {CHR ''x''}"
  using hexChars_in [OF nibble_less] by (auto simp: appendHex_eq) (auto simp: hexChars_def)

section \<open>Facts on lines\<close>

text \<open>The line without its newline, as a function of the values printed.\<close>

definition slot_json :: "u64 \<Rightarrow> u64 \<Rightarrow> u64 \<Rightarrow> u64 \<Rightarrow> bool \<Rightarrow> u64 \<Rightarrow> bytes" where
  "slot_json probe safeSeq tid addr isActive ts =
     ''{\"probe_id\":'' @ FormatUint probe @ '',\"tid\":'' @ FormatUint tid @
     '',\"addr\":\"'' @ appendHex [] addr @ ''\",\"seq\":'' @ FormatUint safeSeq @
     '',\"is_active\":'' @ FormatBool isActive @ '',\"ts\":'' @ FormatUint ts @ ''}''"

lemma marshal_eq:
  "marshalSafeSlotJSONL s buf safeSeq tid addr isActive ts =
     buf @ slot_json (ProbeID (Header s)) safeSeq tid addr isActive ts @ [newline]"
  by (simp add: marshalSafeSlotJSONL_def slot_json_def AppendUint_def FormatBool_def appendHex_eq)

lemma newline_not_digit: "\<not> is_digit newline"
  by (simp add: is_digit_def)

lemma slot_json_no_newline: "newline \<notin> set (slot_json probe safeSeq tid addr isActive ts)"
proof -
  have "newline \<notin> set (FormatUint v)" for v
    using FormatUint_digits newline_not_digit by blast
  moreover have "newline \<notin> set (appendHex [] addr)"
    using appendHex_chars [of addr] by (auto simp: hexChars_def)
  ultimately show ?thesis by (simp add: slot_json_def FormatBool_def)
qed

lemma length_dec: "n < 10 ^ k \<Longrightarrow> 0 < k \<Longrightarrow> length (dec n) \<le> k"
proof (induction n arbitrary: k rule: dec.induct)
  case (1 n)
  show ?case
  proof (cases "n < 10")
    case True
    with 1 show ?thesis by (simp add: dec.simps [of n])
  next
    case False
    with 1 obtain k' where k: "k = Suc k'" "0 < k'"
      by (cases k; cases "k - 1") auto
    from 1(2) k have "n div 10 < 10 ^ k'" by (simp add: less_mult_imp_div_less mult.commute)
    from 1(1) [OF False this k(2)] False k show ?thesis by (simp add: dec.simps [of n])
  qed
qed

lemma length_FormatUint: "length (FormatUint v) \<le> 20"
proof -
  have "unat v < 10 ^ 20"
    by (rule less_trans [OF unat_less_2p64]) simp
  then show ?thesis by (simp add: FormatUint_def length_dec)
qed

lemma length_slot_json: "length (slot_json probe safeSeq tid addr isActive ts) \<le> 159"
  using length_FormatUint [of probe] length_FormatUint [of tid] length_FormatUint [of safeSeq]
    length_FormatUint [of ts]
  by (cases isActive) (simp_all add: slot_json_def FormatBool_def)

section \<open>Facts on the writer\<close>

lemma WriteSafeSlot_stream:
  "WriteSafeSlot sw s safeSeq tid addr isActive ts = (sw', False) \<Longrightarrow>
   sw_stream sw' = sw_stream sw @ marshalSafeSlotJSONL s [] safeSeq tid addr isActive ts"
  by (auto simp: WriteSafeSlot_def sw_stream_def Let_def split: prod.splits dest: osf.write_stream)

lemma WriteSafeSlot_err:
  "WriteSafeSlot sw s safeSeq tid addr isActive ts = (sw', e) \<Longrightarrow> sw_failed sw' = e"
  by (auto simp: WriteSafeSlot_def Let_def split: prod.splits dest: osf.write_err)

lemma WriteSafeSlot_stuck:
  "sw_failed sw \<Longrightarrow> sw_failed (fst (WriteSafeSlot sw s safeSeq tid addr isActive ts))"
  by (simp add: WriteSafeSlot_def Let_def osf.write_stuck)

lemma WriteSafeSlot_ok [wf_intros]:
  "sw_ok sw \<Longrightarrow> sw_ok (fst (WriteSafeSlot sw s safeSeq tid addr isActive ts))"
  by (auto simp: WriteSafeSlot_def sw_ok_def Let_def split: prod.splits dest: osf.write_ok)

lemma sw_Flush_ok [wf_intros]: "sw_ok sw \<Longrightarrow> sw_ok (fst (sw_Flush sw))"
  by (auto simp: sw_Flush_def sw_ok_def split: prod.splits dest: osf.flush_ok)

lemma sw_Flush_stream: "sw_stream (fst (sw_Flush sw)) = sw_stream sw"
  by (auto simp: sw_Flush_def sw_stream_def split: prod.splits dest: osf.flush_stream)

lemma sw_Flush_stuck: "sw_failed sw \<Longrightarrow> sw_Flush sw = (sw, True)"
  by (simp add: sw_Flush_def osf.flush_stuck)

lemma sw_Flush_err: "sw_failed (fst (sw_Flush sw)) = snd (sw_Flush sw)"
  by (auto simp: sw_Flush_def split: prod.splits dest: osf.flush_err)

lemma sw_Flush_file: "\<not> sw_failed (fst (sw_Flush sw)) \<Longrightarrow> sw_file (fst (sw_Flush sw)) = sw_stream sw"
proof (cases "bw_flush os_write (sw_writer sw)")
  case (Pair w e)
  then show "\<not> sw_failed (fst (sw_Flush sw)) \<Longrightarrow> ?thesis"
    using osf.flush_err [OF Pair] osf.flush_delivers [of "sw_writer sw" w]
    by (simp add: sw_Flush_def sw_file_def sw_stream_def)
qed

lemma sw_Close_file: "sw_file (fst (sw_Close sw)) = sw_file (fst (sw_Flush sw))"
  by (simp add: sw_Close_def sw_file_def os_close_def Let_def)

lemma sw_file_prefix: "prefix (sw_file sw) (sw_stream sw)"
  by (simp add: sw_file_def sw_stream_def osf.stream_def)

end
