(* ===== verification/Station.thy ===== *)
theory Station
  imports Jsonl
begin

text \<open>
  \<^verbatim>\<open>StationData.Harvest\<close> of \<^verbatim>\<open>structure/station.go\<close>. The station is shared with a running program, so
  the model reads it from a run \<open>mem\<close>: \<open>mem t\<close> is the station at the \<open>t\<close>-th access the reader makes,
  and every read of shared memory takes one tick. A fixed station is the run \<open>\<lambda>_. s\<close>. The lemmas
  describe the records a call logs, the counters it returns and the file it writes.
\<close>

type_synonym station_run = "nat \<Rightarrow> StationData"

section \<open>The code\<close>

text \<open>The body of the loop for slot \<open>i\<close>: returns the time after it, the new \<^verbatim>\<open>lastSeenSeqs[i]\<close>, the
  writer and whether the counter goes up. \<^verbatim>\<open>WriteSafeSlot\<close>'s error is dropped, as in the code; it
  reads the probe identifier of the station when it builds the line.\<close>

definition harvest_slot ::
  "station_run \<Rightarrow> nat \<Rightarrow> nat \<Rightarrow> u64 \<Rightarrow> StationWriter \<Rightarrow> nat \<times> u64 \<times> StationWriter \<times> bool" where
  "harvest_slot mem t i lastSeen sw =
     (let slot = (\<lambda>k. Slots (mem (t + k)) ! i);
          seq1 = Seq (slot 0)
      in if seq1 \<le> lastSeen then (t + 1, lastSeen, sw, False)
         else if seq1 mod 2 \<noteq> 0 then (t + 1, lastSeen, sw, False)
         else
           let localTID = TID (slot 1);
               localAddr = Addr (slot 2);
               localIsActive = IsActive (slot 3);
               localTS = Timestamp (slot 4);
               seq2 = Seq (slot 5)
           in if seq1 \<noteq> seq2 then (t + 6, lastSeen, sw, False)
              else (t + 7, seq1,
                    fst (WriteSafeSlot sw (mem (t + 6)) seq1 localTID localAddr localIsActive localTS),
                    True))"

fun harvest_loop ::
  "station_run \<Rightarrow> nat \<Rightarrow> nat list \<Rightarrow> u64 list \<Rightarrow> StationWriter \<Rightarrow> nat \<Rightarrow>
   nat \<times> u64 list \<times> StationWriter \<times> nat" where
  "harvest_loop mem t [] lastSeenSeqs sw harvestedCount = (t, lastSeenSeqs, sw, harvestedCount)"
| "harvest_loop mem t (i # is) lastSeenSeqs sw harvestedCount =
     (case harvest_slot mem t i (lastSeenSeqs ! i) sw of
        (t', seen, sw', hit) \<Rightarrow>
          harvest_loop mem t' is (lastSeenSeqs[i := seen]) sw'
            (if hit then harvestedCount + 1 else harvestedCount))"

definition Harvest ::
  "station_run \<Rightarrow> nat \<Rightarrow> u64 list \<Rightarrow> StationWriter \<Rightarrow> nat \<times> u64 list \<times> StationWriter \<times> nat" where
  "Harvest mem t lastSeenSeqs sw = harvest_loop mem t [0..<8] lastSeenSeqs sw 0"

section \<open>Records\<close>

text \<open>One logged record and its line.\<close>

record slot_event =
  ev_probe :: u64
  ev_seq :: u64
  ev_tid :: u64
  ev_addr :: u64
  ev_active :: bool
  ev_ts :: u64

definition event_line :: "slot_event \<Rightarrow> bytes" where
  "event_line e =
     slot_json (ev_probe e) (ev_seq e) (ev_tid e) (ev_addr e) (ev_active e) (ev_ts e) @ [newline]"

text \<open>What slot \<open>i\<close>, read from time \<open>t\<close> on, contributes to the log.\<close>

definition slot_read :: "station_run \<Rightarrow> nat \<Rightarrow> nat \<Rightarrow> u64 \<Rightarrow> slot_event option" where
  "slot_read mem t i lastSeen =
     (let slot = (\<lambda>k. Slots (mem (t + k)) ! i) in
      if lastSeen < Seq (slot 0) \<and> even (unat (Seq (slot 0))) \<and> Seq (slot 5) = Seq (slot 0)
      then Some \<lparr>ev_probe = ProbeID (Header (mem (t + 6))), ev_seq = Seq (slot 0),
                 ev_tid = TID (slot 1), ev_addr = Addr (slot 2), ev_active = IsActive (slot 3),
                 ev_ts = Timestamp (slot 4)\<rparr>
      else None)"

definition slot_ticks :: "station_run \<Rightarrow> nat \<Rightarrow> nat \<Rightarrow> u64 \<Rightarrow> nat" where
  "slot_ticks mem t i lastSeen =
     (if Seq (Slots (mem t) ! i) \<le> lastSeen \<or> odd (unat (Seq (Slots (mem t) ! i))) then 1
      else if slot_read mem t i lastSeen = None then 6 else 7)"

definition seen_after :: "u64 \<Rightarrow> slot_event option \<Rightarrow> u64" where
  "seen_after lastSeen r = (case r of None \<Rightarrow> lastSeen | Some e \<Rightarrow> ev_seq e)"

fun loop_events :: "station_run \<Rightarrow> nat \<Rightarrow> nat list \<Rightarrow> u64 list \<Rightarrow> (nat \<times> slot_event) list" where
  "loop_events mem t [] lastSeenSeqs = []"
| "loop_events mem t (i # is) lastSeenSeqs =
     (let r = slot_read mem t i (lastSeenSeqs ! i) in
      (case r of None \<Rightarrow> [] | Some e \<Rightarrow> [(i, e)]) @
      loop_events mem (t + slot_ticks mem t i (lastSeenSeqs ! i)) is
        (lastSeenSeqs[i := seen_after (lastSeenSeqs ! i) r]))"

fun loop_seen :: "station_run \<Rightarrow> nat \<Rightarrow> nat list \<Rightarrow> u64 list \<Rightarrow> u64 list" where
  "loop_seen mem t [] lastSeenSeqs = lastSeenSeqs"
| "loop_seen mem t (i # is) lastSeenSeqs =
     loop_seen mem (t + slot_ticks mem t i (lastSeenSeqs ! i)) is
       (lastSeenSeqs[i := seen_after (lastSeenSeqs ! i) (slot_read mem t i (lastSeenSeqs ! i))])"

fun loop_time :: "station_run \<Rightarrow> nat \<Rightarrow> nat list \<Rightarrow> u64 list \<Rightarrow> nat" where
  "loop_time mem t [] lastSeenSeqs = t"
| "loop_time mem t (i # is) lastSeenSeqs =
     loop_time mem (t + slot_ticks mem t i (lastSeenSeqs ! i)) is
       (lastSeenSeqs[i := seen_after (lastSeenSeqs ! i) (slot_read mem t i (lastSeenSeqs ! i))])"

definition write_event :: "StationWriter \<Rightarrow> slot_event \<Rightarrow> StationWriter" where
  "write_event sw e =
     (let sw = sw\<lparr>sw_line := event_line e\<rparr>
      in sw\<lparr>sw_writer := fst (bw_write os_write (sw_writer sw) (sw_line sw))\<rparr>)"

definition write_events :: "StationWriter \<Rightarrow> slot_event list \<Rightarrow> StationWriter" where
  "write_events sw es = foldl write_event sw es"

abbreviation harvest_events :: "station_run \<Rightarrow> nat \<Rightarrow> u64 list \<Rightarrow> (nat \<times> slot_event) list" where
  "harvest_events mem t lastSeenSeqs \<equiv> loop_events mem t [0..<8] lastSeenSeqs"

section \<open>The code in terms of records\<close>

lemma WriteSafeSlot_event:
  "fst (WriteSafeSlot sw s safeSeq tid addr isActive ts) =
   write_event sw \<lparr>ev_probe = ProbeID (Header s), ev_seq = safeSeq, ev_tid = tid, ev_addr = addr,
                   ev_active = isActive, ev_ts = ts\<rparr>"
  by (simp add: WriteSafeSlot_def write_event_def event_line_def marshal_eq split: prod.splits)

lemma harvest_slot_read [slot_simps]:
  "harvest_slot mem t i lastSeen sw =
     (t + slot_ticks mem t i lastSeen, seen_after lastSeen (slot_read mem t i lastSeen),
      (case slot_read mem t i lastSeen of None \<Rightarrow> sw | Some e \<Rightarrow> write_event sw e),
      slot_read mem t i lastSeen \<noteq> None)"
  by (auto simp: harvest_slot_def slot_read_def slot_ticks_def seen_after_def Let_def
      WriteSafeSlot_event word_mod2_even not_le)

lemma harvest_loop_events:
  "harvest_loop mem t is lastSeenSeqs sw n =
     (loop_time mem t is lastSeenSeqs, loop_seen mem t is lastSeenSeqs,
      write_events sw (map snd (loop_events mem t is lastSeenSeqs)),
      n + length (loop_events mem t is lastSeenSeqs))"
  by (induction "is" arbitrary: t lastSeenSeqs sw n)
     (auto simp: slot_simps write_events_def Let_def split: option.splits)

lemma Harvest_eq:
  "Harvest mem t lastSeenSeqs sw =
     (loop_time mem t [0..<8] lastSeenSeqs, loop_seen mem t [0..<8] lastSeenSeqs,
      write_events sw (map snd (harvest_events mem t lastSeenSeqs)),
      length (harvest_events mem t lastSeenSeqs))"
  by (simp add: Harvest_def harvest_loop_events)

section \<open>The log file\<close>

lemma write_event_stuck: "sw_failed sw \<Longrightarrow> sw_failed (write_event sw e)"
  by (simp add: write_event_def osf.write_stuck)

lemma write_events_stuck: "sw_failed sw \<Longrightarrow> sw_failed (write_events sw es)"
  unfolding write_events_def
  by (induction es arbitrary: sw) (simp_all add: write_event_stuck)

lemma write_event_stream:
  "\<not> sw_failed (write_event sw e) \<Longrightarrow> sw_stream (write_event sw e) = sw_stream sw @ event_line e"
proof -
  assume ok: "\<not> sw_failed (write_event sw e)"
  obtain w err where w: "bw_write os_write (sw_writer sw) (event_line e) = (w, err)"
    by (cases "bw_write os_write (sw_writer sw) (event_line e)")
  with ok osf.write_err [OF w] have "\<not> err" by (simp add: write_event_def)
  with w osf.write_stream [of "sw_writer sw" "event_line e" w] show ?thesis
    by (simp add: write_event_def sw_stream_def)
qed

lemma write_events_stream:
  "\<not> sw_failed (write_events sw es) \<Longrightarrow>
   sw_stream (write_events sw es) = sw_stream sw @ concat (map event_line es)"
proof (induction es arbitrary: sw)
  case (Cons e es)
  have ok: "\<not> sw_failed (write_event sw e)"
    using Cons.prems write_events_stuck by (fastforce simp: write_events_def)
  from Cons.prems have "\<not> sw_failed (write_events (write_event sw e) es)"
    by (simp add: write_events_def)
  from Cons.IH [OF this] write_event_stream [OF ok] show ?case
    by (simp add: write_events_def)
qed (simp add: write_events_def)

lemma write_events_ok [wf_intros]: "sw_ok sw \<Longrightarrow> sw_ok (write_events sw es)"
proof (induction es arbitrary: sw)
  case (Cons e es)
  have "sw_ok (write_event sw e)"
    using Cons.prems by (auto simp: write_event_def sw_ok_def intro: osf.write_ok [OF prod.collapse [symmetric]])
  then show ?case using Cons.IH by (simp add: write_events_def)
qed (simp add: write_events_def)

lemma event_line_no_newline: "\<exists>l. event_line e = l @ [newline] \<and> newline \<notin> set l"
  by (simp add: event_line_def slot_json_no_newline)

section \<open>What \<^verbatim>\<open>lastSeenSeqs\<close> says\<close>

lemma slot_read_seq:
  "slot_read mem t i lastSeen = Some e \<Longrightarrow> lastSeen < ev_seq e \<and> even (unat (ev_seq e))"
  by (auto simp: slot_read_def Let_def split: if_splits)

lemma seen_after_mono: "lastSeen \<le> seen_after lastSeen (slot_read mem t i lastSeen)"
  by (auto simp: seen_after_def split: option.splits dest: slot_read_seq)

lemma length_loop_seen [simp]: "length (loop_seen mem t is lastSeenSeqs) = length lastSeenSeqs"
  by (induction "is" arbitrary: t lastSeenSeqs) auto

lemma loop_seen_mono:
  "k < length lastSeenSeqs \<Longrightarrow> lastSeenSeqs ! k \<le> loop_seen mem t is lastSeenSeqs ! k"
proof (induction "is" arbitrary: t lastSeenSeqs)
  case (Cons i "is")
  let ?l = "lastSeenSeqs[i := seen_after (lastSeenSeqs ! i) (slot_read mem t i (lastSeenSeqs ! i))]"
  have "lastSeenSeqs ! k \<le> ?l ! k"
    using Cons.prems seen_after_mono by (cases "k = i") auto
  also have "?l ! k \<le> loop_seen mem (t + slot_ticks mem t i (lastSeenSeqs ! i)) is ?l ! k"
    using Cons.prems by (intro Cons.IH) simp
  finally show ?case by simp
qed simp

text \<open>A slot outside the list keeps its counter, a slot inside is read once.\<close>

lemma loop_seen_other: "k \<notin> set is \<Longrightarrow> loop_seen mem t is lastSeenSeqs ! k = lastSeenSeqs ! k"
  by (induction "is" arbitrary: t lastSeenSeqs) auto

lemma loop_events_in:
  assumes "(k, e) \<in> set (loop_events mem t is lastSeenSeqs)" "distinct is" "set is \<subseteq> {..<length lastSeenSeqs}"
  shows "k \<in> set is \<and> lastSeenSeqs ! k < ev_seq e \<and> even (unat (ev_seq e)) \<and>
         loop_seen mem t is lastSeenSeqs ! k = ev_seq e \<and>
         (\<exists>t' \<ge> t. slot_read mem t' k (lastSeenSeqs ! k) = Some e \<and>
            t' + 7 \<le> loop_time mem t is lastSeenSeqs)"
  using assms
proof (induction "is" arbitrary: t lastSeenSeqs)
  case (Cons i "is")
  let ?r = "slot_read mem t i (lastSeenSeqs ! i)"
  let ?t = "t + slot_ticks mem t i (lastSeenSeqs ! i)"
  let ?l = "lastSeenSeqs[i := seen_after (lastSeenSeqs ! i) ?r]"
  have time_mono: "a \<le> loop_time mem a js ls" for a js ls
    by (induction js arbitrary: a ls) (auto, meson le_add1 le_trans)
  consider (here) "?r = Some e" "k = i" | (later) "(k, e) \<in> set (loop_events mem ?t is ?l)"
    using Cons.prems(1) by (auto simp: Let_def split: option.splits)
  then show ?case
  proof cases
    case here
    with Cons.prems(2,3) have "loop_seen mem ?t is ?l ! k = ev_seq e"
      by (simp add: loop_seen_other seen_after_def)
    moreover have "t + 7 \<le> loop_time mem ?t is ?l"
      using time_mono [of ?t "is" ?l] slot_read_seq [OF here(1)] here
      by (auto simp: slot_ticks_def slot_read_def Let_def split: if_splits)
    ultimately show ?thesis
      using here slot_read_seq [OF here(1)] by auto
  next
    case later
    have IH: "k \<in> set is" "?l ! k < ev_seq e" "even (unat (ev_seq e))"
        "loop_seen mem ?t is ?l ! k = ev_seq e"
        "\<exists>t' \<ge> ?t. slot_read mem t' k (?l ! k) = Some e \<and> t' + 7 \<le> loop_time mem ?t is ?l"
      using Cons.IH [OF later] Cons.prems(2,3) by auto
    with Cons.prems(2) have "?l ! k = lastSeenSeqs ! k" by (metis distinct.simps(2) nth_list_update_neq)
    with IH show ?thesis by (auto intro: add_leD1)
  qed
qed simp

lemma loop_events_miss:
  assumes "k \<notin> fst ` set (loop_events mem t is lastSeenSeqs)" "distinct is" "set is \<subseteq> {..<length lastSeenSeqs}"
  shows "loop_seen mem t is lastSeenSeqs ! k = lastSeenSeqs ! k"
  using assms
proof (induction "is" arbitrary: t lastSeenSeqs)
  case (Cons i "is")
  let ?r = "slot_read mem t i (lastSeenSeqs ! i)"
  let ?l = "lastSeenSeqs[i := seen_after (lastSeenSeqs ! i) ?r]"
  have "loop_seen mem (t + slot_ticks mem t i (lastSeenSeqs ! i)) is ?l ! k = ?l ! k"
    using Cons.prems by (intro Cons.IH) (auto simp: Let_def)
  moreover have "k = i \<Longrightarrow> ?r = None"
    using Cons.prems(1) by (cases ?r) (auto simp: Let_def)
  ultimately show ?case
    by (cases "k = i") (auto simp: seen_after_def)
qed simp

section \<open>A station nobody writes\<close>

text \<open>What is due on a fixed station: a slot whose sequence number is even and new.\<close>

definition slot_due :: "StationData \<Rightarrow> u64 list \<Rightarrow> nat \<Rightarrow> bool" where
  "slot_due s lastSeenSeqs i \<longleftrightarrow>
     lastSeenSeqs ! i < Seq (Slots s ! i) \<and> even (unat (Seq (Slots s ! i)))"

definition slot_record :: "StationData \<Rightarrow> nat \<Rightarrow> slot_event" where
  "slot_record s i =
     (let slot = Slots s ! i in
      \<lparr>ev_probe = ProbeID (Header s), ev_seq = Seq slot, ev_tid = TID slot, ev_addr = Addr slot,
       ev_active = IsActive slot, ev_ts = Timestamp slot\<rparr>)"

lemma slot_read_const:
  "slot_read (\<lambda>_. s) t i (lastSeenSeqs ! i) =
     (if slot_due s lastSeenSeqs i then Some (slot_record s i) else None)"
  by (simp add: slot_read_def slot_record_def slot_due_def Let_def)

lemma loop_events_const:
  "distinct is \<Longrightarrow> set is \<subseteq> {..<length lastSeenSeqs} \<Longrightarrow>
   loop_events (\<lambda>_. s) t is lastSeenSeqs =
     map (\<lambda>i. (i, slot_record s i)) (filter (slot_due s lastSeenSeqs) is)"
proof (induction "is" arbitrary: t lastSeenSeqs)
  case (Cons i "is")
  let ?l = "lastSeenSeqs[i := seen_after (lastSeenSeqs ! i) (slot_read (\<lambda>_. s) t i (lastSeenSeqs ! i))]"
  have "filter (slot_due s ?l) is = filter (slot_due s lastSeenSeqs) is"
    using Cons.prems(1)
    by (intro filter_cong refl) (metis distinct.simps(2) nth_list_update_neq slot_due_def)
  with Cons show ?case
    by (simp add: slot_read_const Let_def)
qed simp

lemma loop_seen_const:
  assumes "distinct is" "set is \<subseteq> {..<length lastSeenSeqs}" "i \<in> set is"
  shows "loop_seen (\<lambda>_. s) t is lastSeenSeqs ! i =
     (if slot_due s lastSeenSeqs i then Seq (Slots s ! i) else lastSeenSeqs ! i)"
proof (cases "slot_due s lastSeenSeqs i")
  case True
  with assms have "(i, slot_record s i) \<in> set (loop_events (\<lambda>_. s) t is lastSeenSeqs)"
    by (simp add: loop_events_const)
  from loop_events_in [OF this assms(1,2)] True show ?thesis
    by (simp add: slot_record_def Let_def)
next
  case False
  with assms have "i \<notin> fst ` set (loop_events (\<lambda>_. s) t is lastSeenSeqs)"
    by (auto simp: loop_events_const)
  from loop_events_miss [OF this assms(1,2)] False show ?thesis by simp
qed

lemma slot_due_once:
  assumes "length lastSeenSeqs = 8" "i < 8"
  shows "\<not> slot_due s (loop_seen (\<lambda>_. s) t [0..<8] lastSeenSeqs) i"
proof -
  have "loop_seen (\<lambda>_. s) t [0..<8] lastSeenSeqs ! i
        = (if slot_due s lastSeenSeqs i then Seq (Slots s ! i) else lastSeenSeqs ! i)"
    using assms by (intro loop_seen_const) auto
  then show ?thesis by (auto simp: slot_due_def)
qed

lemma length_filter_due_le: "length (filter P [0..<8]) \<le> (8::nat)"
  using length_filter_le [of P "[0..<8::nat]"] by simp

lemma loop_events_distinct:
  assumes "distinct is"
  shows "distinct (map fst (loop_events mem t is lastSeenSeqs)) \<and>
         fst ` set (loop_events mem t is lastSeenSeqs) \<subseteq> set is"
  using assms
proof (induction "is" arbitrary: t lastSeenSeqs)
  case (Cons i "is")
  have "distinct is" "i \<notin> set is" using Cons.prems by auto
  from Cons.IH [OF this(1)] this(2) show ?case
    by (fastforce simp: Let_def split: option.splits)
qed simp

lemma length_harvest_events: "length (harvest_events mem t lastSeenSeqs) \<le> 8"
proof -
  have "card (set (map fst (harvest_events mem t lastSeenSeqs))) \<le> card (set [0..<8::nat])"
    using loop_events_distinct [of "[0..<8]" mem t lastSeenSeqs] by (intro card_mono) auto
  moreover have "distinct (map fst (harvest_events mem t lastSeenSeqs))"
    using loop_events_distinct [of "[0..<8]" mem t lastSeenSeqs] by simp
  ultimately show ?thesis by (simp add: distinct_card del: set_map)
qed

end
