(* ===== verification/Seqlock.thy ===== *)
theory Seqlock
  imports Station
begin

text \<open>
  The sequence-lock contract between a probe and the harvester. The locale \<open>seqlock_writer\<close> states
  what a probe promises of every state it passes through; inside it the lemmas show what
  \<^verbatim>\<open>Harvest\<close> may conclude from two equal, even sequence numbers, for every interleaving of the
  probe's stores with the harvester's loads (visible in program order; theory \<open>Traced_Program\<close> lets them be delayed). The probes of the
  two software kits are interpretations (theory \<open>Probe\<close>).
\<close>

section \<open>Payloads\<close>

record payload =
  p_tid :: u64
  p_addr :: u64
  p_active :: bool
  p_ts :: u64

definition epoch_payload :: "Epoch \<Rightarrow> payload" where
  "epoch_payload e = \<lparr>p_tid = TID e, p_addr = Addr e, p_active = IsActive e, p_ts = Timestamp e\<rparr>"

definition event_payload :: "slot_event \<Rightarrow> payload" where
  "event_payload e =
     \<lparr>p_tid = ev_tid e, p_addr = ev_addr e, p_active = ev_active e, p_ts = ev_ts e\<rparr>"

section \<open>The contract\<close>

text \<open>\<open>written s i\<close> lists the payloads of the finished writes to slot \<open>i\<close>, oldest first;
  \<open>writing s i\<close> says a write to slot \<open>i\<close> is under way.\<close>

locale seqlock_writer =
  fixes step :: "'s \<Rightarrow> 's \<Rightarrow> bool"
    and station :: "'s \<Rightarrow> StationData"
    and written :: "'s \<Rightarrow> nat \<Rightarrow> payload list"
    and writing :: "'s \<Rightarrow> nat \<Rightarrow> bool"
    and ident :: "'s \<Rightarrow> u64"
    and inv :: "'s \<Rightarrow> bool"
  assumes inv_step: "inv s \<Longrightarrow> step s s' \<Longrightarrow> inv s'"
    and seq_value: "inv s \<Longrightarrow> i < 8 \<Longrightarrow>
      Seq (Slots (station s) ! i) = word_of_nat (2 * length (written s i) + of_bool (writing s i))"
    and quiet_payload: "inv s \<Longrightarrow> i < 8 \<Longrightarrow> \<not> writing s i \<Longrightarrow> written s i \<noteq> [] \<Longrightarrow>
      epoch_payload (Slots (station s) ! i) = last (written s i)"
    and written_grows: "inv s \<Longrightarrow> step s s' \<Longrightarrow> prefix (written s i) (written s' i)"
    and lock_released: "inv s \<Longrightarrow> step s s' \<Longrightarrow> writing s i \<Longrightarrow> \<not> writing s' i \<Longrightarrow>
      length (written s i) < length (written s' i)"
    and probe_known: "inv s \<Longrightarrow> written s i \<noteq> [] \<Longrightarrow> ProbeID (Header (station s)) = ident s"
    and ident_fixed: "inv s \<Longrightarrow> step s s' \<Longrightarrow> ident s' = ident s"
begin

text \<open>The sequence number as a natural number that never wraps.\<close>

definition phase :: "'s \<Rightarrow> nat \<Rightarrow> nat" where
  "phase s i = 2 * length (written s i) + of_bool (writing s i)"

lemma phase_step: "inv s \<Longrightarrow> step s s' \<Longrightarrow> phase s i \<le> phase s' i"
  using prefix_length_le [OF written_grows [of s s' i]] lock_released [of s s' i]
  by (auto simp: phase_def)

lemma steps_keep:
  assumes "step\<^sup>*\<^sup>* s s'" "inv s"
  shows "inv s' \<and> phase s i \<le> phase s' i \<and> prefix (written s i) (written s' i) \<and> ident s' = ident s"
  using assms
proof (induction rule: rtranclp_induct)
  case (step y z)
  then show ?case
    using inv_step [of y z] phase_step [of y z i] written_grows [of y z i] ident_fixed [of y z]
    by (auto intro: prefix_order.trans)
qed simp

text \<open>A run gives the state at each access of the reader; any number of steps lie between two.\<close>

definition probe_run :: "(nat \<Rightarrow> 's) \<Rightarrow> bool" where
  "probe_run run \<longleftrightarrow> inv (run 0) \<and> (\<forall>t. step\<^sup>*\<^sup>* (run t) (run (Suc t)))"

lemma probe_run_steps:
  assumes "probe_run run" "t \<le> u"
  shows "step\<^sup>*\<^sup>* (run t) (run u)"
  using assms(2)
proof (induction u rule: dec_induct)
  case (step n)
  with assms(1) show ?case by (metis probe_run_def rtranclp_trans)
qed simp

lemma probe_run_inv: "probe_run run \<Longrightarrow> inv (run t)"
  using probe_run_steps [of run 0 t] steps_keep probe_run_def by blast

lemma probe_run_keep:
  assumes "probe_run run" "t \<le> u"
  shows "phase (run t) i \<le> phase (run u) i \<and> prefix (written (run t) i) (written (run u) i) \<and>
         ident (run u) = ident (run t)"
  using steps_keep [OF probe_run_steps [OF assms] probe_run_inv [OF assms(1)]] by blast

lemma unat_seq:
  assumes "inv s" "i < 8" "phase s i < 2 ^ 64"
  shows "unat (Seq (Slots (station s) ! i)) = phase s i"
proof -
  have "Seq (Slots (station s) ! i) = word_of_nat (phase s i)"
    using seq_value [OF assms(1,2)] by (simp only: phase_def)
  with assms(3) show ?thesis by (simp add: unat_of_nat)
qed

text \<open>Between two equal even sequence numbers the probe did not touch the slot.\<close>

lemma stable_between:
  assumes run: "probe_run run" and i: "i < 8" and bound: "phase (run u) i < 2 ^ 64"
    and tu: "t \<le> u" and eq: "Seq (Slots (station (run t)) ! i) = Seq (Slots (station (run u)) ! i)"
    and ev: "even (unat (Seq (Slots (station (run t)) ! i)))" and v: "t \<le> v" "v \<le> u"
  shows "\<not> writing (run v) i \<and> written (run v) i = written (run t) i"
proof -
  have bt: "phase (run t) i < 2 ^ 64" using probe_run_keep [OF run tu, of i] bound by simp
  have "phase (run t) i = phase (run u) i"
    using eq unat_seq [OF probe_run_inv [OF run] i bt] unat_seq [OF probe_run_inv [OF run] i bound]
    by simp
  then have ph: "phase (run v) i = phase (run t) i"
    using probe_run_keep [OF run v(1), of i] probe_run_keep [OF run v(2), of i] by simp
  moreover have "even (phase (run t) i)"
    using ev unat_seq [OF probe_run_inv [OF run] i bt] by simp
  ultimately have "even (phase (run v) i)" "even (phase (run t) i)" by simp_all
  then have "\<not> writing (run v) i" "\<not> writing (run t) i"
    by (simp_all add: phase_def of_bool_def split: if_splits)
  with ph have "length (written (run v) i) = length (written (run t) i)"
    by (simp add: phase_def)
  with probe_run_keep [OF run v(1), of i] \<open>\<not> writing (run v) i\<close> show ?thesis
    by (auto simp: prefix_def)
qed

lemma stable_slot:
  assumes run: "probe_run run" and i: "i < 8" and bound: "phase (run u) i < 2 ^ 64"
    and tu: "t \<le> u" and eq: "Seq (Slots (station (run t)) ! i) = Seq (Slots (station (run u)) ! i)"
    and ev: "even (unat (Seq (Slots (station (run t)) ! i)))" and v: "t \<le> v" "v \<le> u"
    and pos: "0 < Seq (Slots (station (run t)) ! i)"
  shows "epoch_payload (Slots (station (run v)) ! i) = last (written (run t) i) \<and> written (run t) i \<noteq> []"
proof -
  have "0 < unat (Seq (Slots (station (run t)) ! i))" using pos by (simp add: word_less_nat_alt)
  moreover have "phase (run t) i < 2 ^ 64" using probe_run_keep [OF run tu, of i] bound by simp
  ultimately have "0 < phase (run t) i" using unat_seq [OF probe_run_inv [OF run] i] by simp
  with stable_between [OF run i bound tu eq ev, of t] tu have ne: "written (run t) i \<noteq> []"
    by (auto simp: phase_def)
  moreover have "\<not> writing (run v) i" "written (run v) i = written (run t) i"
    using stable_between [OF run i bound tu eq ev v] by auto
  ultimately show ?thesis using quiet_payload [OF probe_run_inv [OF run] i] by metis
qed

text \<open>Whatever \<^verbatim>\<open>Harvest\<close> logs for a slot is one finished write, complete and under its own number.\<close>

lemma slot_read_untorn:
  assumes run: "probe_run run" and i: "i < 8" and bound: "phase (run (t + 5)) i < 2 ^ 64"
    and ev: "slot_read (\<lambda>u. station (run u)) t i lastSeen = Some e"
  shows "written (run t) i \<noteq> [] \<and> event_payload e = last (written (run t) i) \<and>
         unat (ev_seq e) = 2 * length (written (run t) i) \<and> ev_probe e = ident (run t)"
proof -
  let ?slot = "\<lambda>k. Slots (station (run (t + k))) ! i"
  from ev have pos: "0 < Seq (?slot 0)" and even: "even (unat (Seq (?slot 0)))"
    and eq: "Seq (?slot 0) = Seq (?slot 5)"
    and e: "e = \<lparr>ev_probe = ProbeID (Header (station (run (t + 6)))), ev_seq = Seq (?slot 0),
      ev_tid = TID (?slot 1), ev_addr = Addr (?slot 2), ev_active = IsActive (?slot 3),
      ev_ts = Timestamp (?slot 4)\<rparr>"
    by (auto simp: slot_read_def Let_def split: if_splits dest: le_less_trans [OF word_zero_le])
  have stable: "epoch_payload (?slot k) = last (written (run t) i)" "written (run t) i \<noteq> []"
    if "k \<le> 5" for k
    using stable_slot [OF run i bound _ _ _ _ _, of t "t + k"] that pos even eq by simp_all
  have "phase (run t) i < 2 ^ 64" using probe_run_keep [OF run, of t "t + 5" i] bound by simp
  then have "unat (Seq (?slot 0)) = phase (run t) i" using unat_seq [OF probe_run_inv [OF run] i] by simp
  moreover have "\<not> writing (run t) i"
    using stable_between [OF run i bound _ _ _ , of t t] even eq by simp
  ultimately have "unat (Seq (?slot 0)) = 2 * length (written (run t) i)" by (simp add: phase_def)
  moreover have "prefix (written (run t) i) (written (run (t + 6)) i)" "ident (run (t + 6)) = ident (run t)"
    using probe_run_keep [OF run, of t "t + 6" i] by simp_all
  with stable(2) [of 0] have "written (run (t + 6)) i \<noteq> []" by (auto simp: prefix_def)
  with \<open>ident (run (t + 6)) = ident (run t)\<close> have "ProbeID (Header (station (run (t + 6)))) = ident (run t)"
    using probe_known [OF probe_run_inv [OF run], of "t + 6" i] by simp
  ultimately show ?thesis
    using stable [of 1] stable [of 2] stable [of 3] stable [of 4]
    by (simp add: e epoch_payload_def event_payload_def) (metis payload.ext_inject)
qed

text \<open>A call of \<^verbatim>\<open>Harvest\<close> logs finished writes only.\<close>

lemma harvest_untorn:
  assumes run: "probe_run run" and len: "length lastSeenSeqs = 8"
    and bound: "\<And>u i. i < 8 \<Longrightarrow> phase (run u) i < 2 ^ 64"
    and ev: "(i, e) \<in> set (harvest_events (\<lambda>u. station (run u)) t lastSeenSeqs)"
  shows "\<exists>u \<ge> t. written (run u) i \<noteq> [] \<and> event_payload e = last (written (run u) i) \<and>
         unat (ev_seq e) = 2 * length (written (run u) i) \<and> ev_probe e = ident (run u)"
proof -
  from loop_events_in [OF ev] len obtain u where "i < 8" "t \<le> u"
    "slot_read (\<lambda>u. station (run u)) u i (lastSeenSeqs ! i) = Some e"
    by (auto simp: atLeast0LessThan)
  with slot_read_untorn [OF run _ bound] show ?thesis by blast
qed

text \<open>The same for the lines a call of \<^verbatim>\<open>Harvest\<close> appends to the log.\<close>

lemma harvest_log_untorn:
  assumes run: "probe_run run" and len: "length lastSeenSeqs = 8"
    and bound: "\<And>u i. i < 8 \<Longrightarrow> phase (run u) i < 2 ^ 64"
    and h: "Harvest (\<lambda>u. station (run u)) t lastSeenSeqs sw = (t', seen, sw', n)"
  shows "\<exists>evs. length evs = n \<and>
    (\<not> sw_failed sw' \<longrightarrow> sw_stream sw' = sw_stream sw @ concat (map event_line evs)) \<and>
    (\<forall>e \<in> set evs. \<exists>u i. t \<le> u \<and> i < 8 \<and> written (run u) i \<noteq> [] \<and> event_payload e = last (written (run u) i) \<and>
       unat (ev_seq e) = 2 * length (written (run u) i) \<and> ev_probe e = ident (run u))"
proof -
  let ?evs = "harvest_events (\<lambda>u. station (run u)) t lastSeenSeqs"
  have "i < 8" if "(i, e) \<in> set ?evs" for i e
    using loop_events_in [OF that] len by (auto simp: atLeast0LessThan)
  with harvest_untorn [OF run len bound] have "\<forall>e \<in> set (map snd ?evs). \<exists>u i. t \<le> u \<and> i < 8 \<and>
      written (run u) i \<noteq> [] \<and> event_payload e = last (written (run u) i) \<and>
      unat (ev_seq e) = 2 * length (written (run u) i) \<and> ev_probe e = ident (run u)"
    by fastforce
  with h write_events_stream [of sw "map snd ?evs"] show ?thesis
    by (intro exI [of _ "map snd ?evs"]) (auto simp: Harvest_eq)
qed

text \<open>If the probe leaves the slot alone while it is read, the newest write is logged.\<close>

lemma slot_read_obstruction_free:
  assumes run: "probe_run run" and i: "i < 8" and bound: "phase (run t) i < 2 ^ 64"
    and quiet: "\<not> writing (run t) i" "phase (run (t + 5)) i = phase (run t) i"
    and new: "lastSeen < Seq (Slots (station (run t)) ! i)"
  shows "\<exists>e. slot_read (\<lambda>u. station (run u)) t i lastSeen = Some e \<and>
         event_payload e = last (written (run t) i)"
proof -
  have s: "unat (Seq (Slots (station (run t)) ! i)) = phase (run t) i"
    "unat (Seq (Slots (station (run (t + 5))) ! i)) = phase (run t) i"
    using unat_seq [OF probe_run_inv [OF run] i] bound quiet(2) by simp_all
  then have "Seq (Slots (station (run (t + 5))) ! i) = Seq (Slots (station (run t)) ! i)"
    by (simp add: word_unat_eq_iff)
  moreover have "even (phase (run t) i)" using quiet(1) by (simp add: phase_def)
  ultimately obtain e where e: "slot_read (\<lambda>u. station (run u)) t i lastSeen = Some e"
    using new s(1) by (auto simp: slot_read_def Let_def)
  with slot_read_untorn [OF run i _ e] bound quiet(2) show ?thesis by auto
qed

end

end
