(* ===== verification/Probe.thy ===== *)
theory Probe
  imports Seqlock
begin

text \<open>
  The writing side of the protocol: the probes of the C++ kit (\<^verbatim>\<open>PromiseMixin\<close> in
  \<^verbatim>\<open>SDK/c++/coroTracer.h\<close>) and of the Rust kit (\<^verbatim>\<open>PollTrace\<close> in \<^verbatim>\<open>SDK/rust/src/lib.rs\<close>), store by
  store, and the allocation of a station. Both are shown to keep the contract of the locale
  \<open>seqlock_writer\<close>.
\<close>

section \<open>Writing one event\<close>

text \<open>How far \<^verbatim>\<open>write_trace\<close> has come: the slot is locked, then the four payload stores are done one
  after the other.\<close>

datatype stage = Locked | AddrDone | TidDone | TsDone | ActiveDone

text \<open>A probe: the station it owns, \<^verbatim>\<open>event_count\<close>, the call of \<^verbatim>\<open>write_trace\<close> under way (stage, the
  payload it writes, \<^verbatim>\<open>old_seq\<close>), whether the constructor has run, the identifier it publishes, and
  the payloads of all finished calls per slot (a record of the history, not program state).\<close>

record probe =
  pr_station :: StationData
  pr_count :: u64
  pr_stage :: "(stage \<times> payload \<times> u64) option"
  pr_born :: bool
  pr_id :: u64
  pr_written :: "nat \<Rightarrow> payload list"

definition cur_slot :: "'a probe_scheme \<Rightarrow> nat" where
  "cur_slot s = unat (pr_count s mod 8)"

definition put_slot :: "nat \<Rightarrow> (Epoch \<Rightarrow> Epoch) \<Rightarrow> 'a probe_scheme \<Rightarrow> 'a probe_scheme" where
  "put_slot i f s = s\<lparr>pr_station := (pr_station s)\<lparr>Slots := (Slots (pr_station s))[i := f (Slots (pr_station s) ! i)]\<rparr>\<rparr>"

definition wt_lock :: "payload \<Rightarrow> 'a probe_scheme \<Rightarrow> 'a probe_scheme" where
  "wt_lock p s =
     (let old_seq = Seq (Slots (pr_station s) ! cur_slot s)
      in (put_slot (cur_slot s) (\<lambda>e. e\<lparr>Seq := old_seq + 1\<rparr>) s)\<lparr>pr_stage := Some (Locked, p, old_seq)\<rparr>)"

definition wt_unlock :: "payload \<Rightarrow> u64 \<Rightarrow> 'a probe_scheme \<Rightarrow> 'a probe_scheme" where
  "wt_unlock p old_seq s =
     (put_slot (cur_slot s) (\<lambda>e. e\<lparr>Seq := old_seq + 2\<rparr>) s)
       \<lparr>pr_stage := None, pr_count := pr_count s + 1,
        pr_written := (pr_written s)(cur_slot s := pr_written s (cur_slot s) @ [p])\<rparr>"

text \<open>The stores of \<^verbatim>\<open>write_trace\<close> after the slot is locked, up to the unlocking store excluded.
  The thread identifier and the time are whatever the calls of \<^verbatim>\<open>get_tid\<close> and \<^verbatim>\<open>get_ns\<close> return; the
  payload names them from the start.\<close>

inductive wt_store :: "'a probe_scheme \<Rightarrow> 'a probe_scheme \<Rightarrow> bool" where
  store_addr: "pr_stage s = Some (Locked, p, old) \<Longrightarrow>
     wt_store s ((put_slot (cur_slot s) (\<lambda>e. e\<lparr>Addr := p_addr p\<rparr>) s)\<lparr>pr_stage := Some (AddrDone, p, old)\<rparr>)"
| store_tid: "pr_stage s = Some (AddrDone, p, old) \<Longrightarrow>
     wt_store s ((put_slot (cur_slot s) (\<lambda>e. e\<lparr>TID := p_tid p\<rparr>) s)\<lparr>pr_stage := Some (TidDone, p, old)\<rparr>)"
| store_ts: "pr_stage s = Some (TidDone, p, old) \<Longrightarrow>
     wt_store s ((put_slot (cur_slot s) (\<lambda>e. e\<lparr>Timestamp := p_ts p\<rparr>) s)\<lparr>pr_stage := Some (TsDone, p, old)\<rparr>)"
| store_active: "pr_stage s = Some (TsDone, p, old) \<Longrightarrow>
     wt_store s ((put_slot (cur_slot s) (\<lambda>e. e\<lparr>IsActive := p_active p\<rparr>) s)\<lparr>pr_stage := Some (ActiveDone, p, old)\<rparr>)"

text \<open>The stores of the constructor and the destructor to the station header. The three stores of a constructor are one step: a reader
  loads only the probe identifier, and only of a slot that is written later.\<close>

definition set_header :: "u64 \<Rightarrow> u64 \<Rightarrow> bool \<Rightarrow> 'a probe_scheme \<Rightarrow> 'a probe_scheme" where
  "set_header probe birth dead s =
     s\<lparr>pr_station := (pr_station s)\<lparr>Header := \<lparr>ProbeID = probe, BirthTS = birth, IsDead = dead\<rparr>\<rparr>\<rparr>"

section \<open>The C++ probe\<close>

text \<open>The constructor publishes the identifier, the coroutine reports suspensions and resumptions
  (\<^verbatim>\<open>await_suspend\<close>: the frame address, inactive; \<^verbatim>\<open>await_resume\<close>: address 0, active), the destructor
  marks the station dead. An unborn probe has a station that no probe wrote before.\<close>

definition cpp_payload :: "payload \<Rightarrow> bool" where
  "cpp_payload p \<longleftrightarrow> (p_active p \<longrightarrow> p_addr p = 0)"

inductive cpp_step :: "probe \<Rightarrow> probe \<Rightarrow> bool" where
  cpp_construct: "\<not> pr_born s \<Longrightarrow> cpp_step s ((set_header (pr_id s) birth False s)\<lparr>pr_born := True\<rparr>)"
| cpp_lock: "pr_born s \<Longrightarrow> pr_stage s = None \<Longrightarrow> cpp_payload p \<Longrightarrow> cpp_step s (wt_lock p s)"
| cpp_store: "wt_store s s' \<Longrightarrow> cpp_step s s'"
| cpp_unlock: "pr_stage s = Some (ActiveDone, p, old) \<Longrightarrow> cpp_step s (wt_unlock p old s)"
| cpp_destroy: "pr_born s \<Longrightarrow> pr_stage s = None \<Longrightarrow>
     cpp_step s (set_header (ProbeID (Header (pr_station s))) (BirthTS (Header (pr_station s))) True s)"

definition cpp_init :: "u64 \<Rightarrow> probe" where
  "cpp_init this =
     \<lparr>pr_station = zero_station, pr_count = 0, pr_stage = None, pr_born = False, pr_id = this,
      pr_written = (\<lambda>_. [])\<rparr>"

section \<open>The Rust probe\<close>

text \<open>\<^verbatim>\<open>PollTrace\<close> also keeps \<^verbatim>\<open>pending\<close> and \<^verbatim>\<open>dead\<close>: \<^verbatim>\<open>on_resume\<close> reports only after a suspension and clears
  the flag, \<^verbatim>\<open>on_pending_addr\<close> reports the suspension and sets it, \<^verbatim>\<open>mark_dead\<close> clears it and writes the
  station only the first time.\<close>

record PollTrace = probe +
  pt_pending :: bool
  pt_dead :: bool

inductive rust_step :: "PollTrace \<Rightarrow> PollTrace \<Rightarrow> bool" where
  rust_new: "\<not> pr_born s \<Longrightarrow> rust_step s ((set_header (pr_id s) birth False s)\<lparr>pr_born := True\<rparr>)"
| rust_on_resume: "pr_born s \<Longrightarrow> pr_stage s = None \<Longrightarrow> pt_pending s \<Longrightarrow> p_addr p = 0 \<Longrightarrow> p_active p \<Longrightarrow>
     rust_step s (wt_lock p s)"
| rust_on_pending: "pr_born s \<Longrightarrow> pr_stage s = None \<Longrightarrow> \<not> p_active p \<Longrightarrow> rust_step s (wt_lock p s)"
| rust_store: "wt_store s s' \<Longrightarrow> rust_step s s'"
| rust_unlock: "pr_stage s = Some (ActiveDone, p, old) \<Longrightarrow>
     rust_step s ((wt_unlock p old s)\<lparr>pt_pending := \<not> p_active p\<rparr>)"
| rust_mark_dead: "pr_born s \<Longrightarrow> pr_stage s = None \<Longrightarrow> \<not> pt_dead s \<Longrightarrow>
     rust_step s ((set_header (ProbeID (Header (pr_station s))) (BirthTS (Header (pr_station s))) True s)
       \<lparr>pt_pending := False, pt_dead := True\<rparr>)"
| rust_dead_again: "pr_stage s = None \<Longrightarrow> pt_dead s \<Longrightarrow> rust_step s (s\<lparr>pt_pending := False\<rparr>)"

definition rust_init :: "u64 \<Rightarrow> PollTrace" where
  "rust_init n =
     \<lparr>pr_station = zero_station, pr_count = 0, pr_stage = None, pr_born = False, pr_id = n,
      pr_written = (\<lambda>_. []), pt_pending = False, pt_dead = False\<rparr>"

section \<open>The invariant of a probe\<close>

definition pr_writing :: "'a probe_scheme \<Rightarrow> nat \<Rightarrow> bool" where
  "pr_writing s i \<longleftrightarrow> pr_stage s \<noteq> None \<and> i = cur_slot s"

fun stage_done :: "stage \<Rightarrow> payload \<Rightarrow> Epoch \<Rightarrow> bool" where
  "stage_done Locked p e = True"
| "stage_done AddrDone p e = (Addr e = p_addr p)"
| "stage_done TidDone p e = (Addr e = p_addr p \<and> TID e = p_tid p)"
| "stage_done TsDone p e = (Addr e = p_addr p \<and> TID e = p_tid p \<and> Timestamp e = p_ts p)"
| "stage_done ActiveDone p e =
     (Addr e = p_addr p \<and> TID e = p_tid p \<and> Timestamp e = p_ts p \<and> IsActive e = p_active p)"

definition slot_inv :: "'a probe_scheme \<Rightarrow> nat \<Rightarrow> bool" where
  "slot_inv s i \<longleftrightarrow>
     Seq (Slots (pr_station s) ! i) = word_of_nat (2 * length (pr_written s i) + of_bool (pr_writing s i)) \<and>
     (\<not> pr_writing s i \<longrightarrow> pr_written s i \<noteq> [] \<longrightarrow>
        epoch_payload (Slots (pr_station s) ! i) = last (pr_written s i))"

definition probe_inv :: "'a probe_scheme \<Rightarrow> bool" where
  "probe_inv s \<longleftrightarrow>
     length (Slots (pr_station s)) = 8 \<and> (\<forall>i < 8. slot_inv s i) \<and>
     (\<forall>g p old. pr_stage s = Some (g, p, old) \<longrightarrow>
        old = word_of_nat (2 * length (pr_written s (cur_slot s))) \<and>
        stage_done g p (Slots (pr_station s) ! cur_slot s)) \<and>
     (\<not> pr_born s \<longrightarrow> pr_stage s = None \<and> (\<forall>i. pr_written s i = [])) \<and>
     (pr_born s \<longrightarrow> ProbeID (Header (pr_station s)) = pr_id s)"

lemma cur_slot_less [simp]: "cur_slot s < 8"
proof -
  have "unat (pr_count s mod 8) = unat (pr_count s) mod 8" by (simp add: unat_mod)
  then show ?thesis by (simp add: cur_slot_def)
qed

lemma put_slot_fields [simp]:
  "pr_count (put_slot i f s) = pr_count s" "pr_stage (put_slot i f s) = pr_stage s"
  "pr_born (put_slot i f s) = pr_born s" "pr_id (put_slot i f s) = pr_id s"
  "pr_written (put_slot i f s) = pr_written s" "probe.more (put_slot i f s) = probe.more s"
  "Header (pr_station (put_slot i f s)) = Header (pr_station s)"
  "Slots (pr_station (put_slot i f s)) = (Slots (pr_station s))[i := f (Slots (pr_station s) ! i)]"
  by (simp_all add: put_slot_def)

lemma set_header_fields [simp]:
  "pr_count (set_header a b d s) = pr_count s" "pr_stage (set_header a b d s) = pr_stage s"
  "pr_born (set_header a b d s) = pr_born s" "pr_id (set_header a b d s) = pr_id s"
  "pr_written (set_header a b d s) = pr_written s" "probe.more (set_header a b d s) = probe.more s"
  "ProbeID (Header (pr_station (set_header a b d s))) = a"
  "Slots (pr_station (set_header a b d s)) = Slots (pr_station s)"
  by (simp_all add: set_header_def)

lemma cur_slot_cong: "pr_count s' = pr_count s \<Longrightarrow> cur_slot s' = cur_slot s"
  for s :: "'a probe_scheme" and s' :: "'b probe_scheme"
  by (simp add: cur_slot_def)

lemmas probe_defs = probe_inv_def slot_inv_def pr_writing_def cur_slot_def

lemma probe_inv_header:
  "probe_inv s \<Longrightarrow> pr_born s \<Longrightarrow> probe_inv (set_header (ProbeID (Header (pr_station s))) b d s)"
  by (simp add: probe_defs)

lemma probe_inv_born:
  "probe_inv s \<Longrightarrow> \<not> pr_born s \<Longrightarrow> probe_inv ((set_header (pr_id s) b d s)\<lparr>pr_born := True\<rparr>)"
  by (simp add: probe_defs)

lemma probe_inv_lock:
  assumes "probe_inv s" "pr_born s" "pr_stage s = None"
  shows "probe_inv (wt_lock p s)"
proof -
  have cur: "cur_slot (wt_lock p s) = cur_slot s"
    by (rule cur_slot_cong) (simp add: wt_lock_def Let_def)
  have "slot_inv (wt_lock p s) i" if "i < 8" for i
    using assms that cur
    by (cases "i = cur_slot s") (auto simp: probe_inv_def slot_inv_def pr_writing_def wt_lock_def Let_def)
  then show ?thesis
    using assms cur by (auto simp: probe_inv_def slot_inv_def pr_writing_def wt_lock_def Let_def)
qed

text \<open>A payload store keeps the number of the slot and records one more field.\<close>

lemma probe_inv_store_gen:
  assumes inv: "probe_inv s" and st: "pr_stage s = Some (g, p, old)"
    and f: "Seq (f (Slots (pr_station s) ! cur_slot s)) = Seq (Slots (pr_station s) ! cur_slot s)"
    and g': "stage_done g' p (f (Slots (pr_station s) ! cur_slot s))"
  shows "probe_inv ((put_slot (cur_slot s) f s)\<lparr>pr_stage := Some (g', p, old)\<rparr>)" (is "probe_inv ?s")
proof -
  have cur: "cur_slot ?s = cur_slot s"
    by (rule cur_slot_cong) simp
  have "slot_inv ?s i" if "i < 8" for i
    using inv st f that cur
    by (cases "i = cur_slot s") (auto simp: probe_inv_def slot_inv_def pr_writing_def)
  then show ?thesis
    using inv st g' cur by (auto simp: probe_inv_def)
qed

lemma probe_inv_store: "wt_store s s' \<Longrightarrow> probe_inv s \<Longrightarrow> probe_inv s'"
proof (induction rule: wt_store.induct)
  case (store_addr s p old)
  then show ?case by (intro probe_inv_store_gen) (auto simp: probe_inv_def)
next
  case (store_tid s p old)
  then have "stage_done AddrDone p (Slots (pr_station s) ! cur_slot s)" by (simp add: probe_inv_def)
  with store_tid show ?case by (intro probe_inv_store_gen) auto
next
  case (store_ts s p old)
  then have "stage_done TidDone p (Slots (pr_station s) ! cur_slot s)" by (simp add: probe_inv_def)
  with store_ts show ?case by (intro probe_inv_store_gen) auto
next
  case (store_active s p old)
  then have "stage_done TsDone p (Slots (pr_station s) ! cur_slot s)" by (simp add: probe_inv_def)
  with store_active show ?case by (intro probe_inv_store_gen) auto
qed

lemma probe_inv_unlock:
  assumes "probe_inv s" "pr_stage s = Some (ActiveDone, p, old)"
  shows "probe_inv (wt_unlock p old s)"
proof -
  have old: "old = word_of_nat (2 * length (pr_written s (cur_slot s)))"
    and fin: "stage_done ActiveDone p (Slots (pr_station s) ! cur_slot s)" and born: "pr_born s"
    using assms by (auto simp: probe_inv_def)
  have nowrite: "\<not> pr_writing (wt_unlock p old s) i" for i
    by (simp add: pr_writing_def wt_unlock_def)
  have "slot_inv (wt_unlock p old s) i" if "i < 8" for i
  proof (cases "i = cur_slot s")
    case True
    with assms(1) fin old nowrite [of i] show ?thesis
      by (auto simp: slot_inv_def wt_unlock_def epoch_payload_def probe_inv_def)
  next
    case False
    then have "\<not> pr_writing s i" by (simp add: pr_writing_def)
    with False assms(1) nowrite [of i] that show ?thesis
      by (auto simp: slot_inv_def wt_unlock_def probe_inv_def)
  qed
  then show ?thesis using assms(1) born by (auto simp: probe_inv_def wt_unlock_def)
qed

section \<open>Both probes keep the contract\<close>

lemma wt_store_keeps:
  "wt_store s s' \<Longrightarrow> pr_written s' = pr_written s \<and> pr_count s' = pr_count s \<and> pr_id s' = pr_id s \<and>
   pr_stage s \<noteq> None \<and> pr_stage s' \<noteq> None \<and> pr_born s' = pr_born s"
  by (induction rule: wt_store.induct) auto

lemma wt_lock_keeps [simp]:
  "pr_written (wt_lock p s) = pr_written s" "pr_id (wt_lock p s) = pr_id s"
  by (simp_all add: wt_lock_def Let_def)

lemma wt_unlock_written: "prefix (pr_written s i) (pr_written (wt_unlock p old s) i)"
  by (simp add: wt_unlock_def)

lemma wt_unlock_id [simp]: "pr_id (wt_unlock p old s) = pr_id s"
  by (simp add: wt_unlock_def)

lemma wt_unlock_longer:
  "pr_writing s i \<Longrightarrow> length (pr_written s i) < length (pr_written (wt_unlock p old s) i)"
  by (simp add: wt_unlock_def pr_writing_def)

text \<open>The four laws that depend on the kind of step, for each of the two step relations.\<close>

lemma cpp_step_inv: "cpp_step s s' \<Longrightarrow> probe_inv s \<Longrightarrow> probe_inv s'"
  by (induction rule: cpp_step.induct)
     (auto intro: probe_inv_born probe_inv_lock probe_inv_store probe_inv_unlock probe_inv_header)

lemma cpp_step_written: "cpp_step s s' \<Longrightarrow> prefix (pr_written s i) (pr_written s' i)"
  by (induction rule: cpp_step.induct) (auto simp: wt_unlock_written dest: wt_store_keeps)

lemma cpp_step_release:
  "cpp_step s s' \<Longrightarrow> probe_inv s \<Longrightarrow> pr_writing s i \<Longrightarrow> \<not> pr_writing s' i \<Longrightarrow>
   length (pr_written s i) < length (pr_written s' i)"
  by (induction rule: cpp_step.induct)
     (auto simp: wt_unlock_longer probe_inv_def pr_writing_def cur_slot_def dest: wt_store_keeps)

lemma cpp_step_id: "cpp_step s s' \<Longrightarrow> pr_id s' = pr_id s"
  by (induction rule: cpp_step.induct) (auto dest: wt_store_keeps)

lemma probe_inv_flags [simp]:
  "probe_inv (s\<lparr>pt_pending := b\<rparr>) = probe_inv s" "probe_inv (s\<lparr>pt_dead := b\<rparr>) = probe_inv s"
  by (simp_all add: probe_defs)

lemma rust_step_inv: "rust_step s s' \<Longrightarrow> probe_inv s \<Longrightarrow> probe_inv s'"
  by (induction rule: rust_step.induct)
     (auto intro: probe_inv_born probe_inv_lock probe_inv_store probe_inv_unlock probe_inv_header)

lemma rust_step_written: "rust_step s s' \<Longrightarrow> prefix (pr_written s i) (pr_written s' i)"
  by (induction rule: rust_step.induct) (auto simp: wt_unlock_written dest: wt_store_keeps)

lemma rust_step_release:
  "rust_step s s' \<Longrightarrow> probe_inv s \<Longrightarrow> pr_writing s i \<Longrightarrow> \<not> pr_writing s' i \<Longrightarrow>
   length (pr_written s i) < length (pr_written s' i)"
  by (induction rule: rust_step.induct)
     (auto simp: wt_unlock_longer probe_inv_def pr_writing_def cur_slot_def dest: wt_store_keeps)

lemma rust_step_id: "rust_step s s' \<Longrightarrow> pr_id s' = pr_id s"
  by (induction rule: rust_step.induct) (auto dest: wt_store_keeps)

text \<open>The laws that follow from the invariant alone.\<close>

lemma probe_inv_seq:
  "probe_inv s \<Longrightarrow> i < 8 \<Longrightarrow>
   Seq (Slots (pr_station s) ! i) = word_of_nat (2 * length (pr_written s i) + of_bool (pr_writing s i))"
  unfolding probe_inv_def slot_inv_def by blast

lemma probe_inv_payload:
  "probe_inv s \<Longrightarrow> i < 8 \<Longrightarrow> \<not> pr_writing s i \<Longrightarrow> pr_written s i \<noteq> [] \<Longrightarrow>
   epoch_payload (Slots (pr_station s) ! i) = last (pr_written s i)"
  unfolding probe_inv_def slot_inv_def by blast

lemma probe_inv_known:
  "probe_inv s \<Longrightarrow> pr_written s i \<noteq> [] \<Longrightarrow> ProbeID (Header (pr_station s)) = pr_id s"
  unfolding probe_inv_def by blast

lemmas probe_laws = probe_inv_seq probe_inv_payload probe_inv_known

interpretation cpp: seqlock_writer cpp_step pr_station pr_written pr_writing pr_id probe_inv
  by unfold_locales
     (auto intro: cpp_step_inv cpp_step_written cpp_step_release cpp_step_id
        probe_inv_payload probe_inv_known simp del: of_nat_add simp: probe_inv_seq)

interpretation rust: seqlock_writer rust_step pr_station pr_written pr_writing pr_id probe_inv
  by unfold_locales
     (auto intro: rust_step_inv rust_step_written rust_step_release rust_step_id
        probe_inv_payload probe_inv_known simp del: of_nat_add simp: probe_inv_seq)

lemma probe_inv_init: "probe_inv (cpp_init this)" "probe_inv (rust_init n)"
  by (auto simp: probe_defs cpp_init_def rust_init_def zero_station_def zero_epoch_def)

section \<open>A whole call of \<^verbatim>\<open>write_trace\<close>\<close>

definition wt_payload :: "payload \<Rightarrow> 'a probe_scheme \<Rightarrow> 'a probe_scheme" where
  "wt_payload p s =
     put_slot (cur_slot s) (\<lambda>e. e\<lparr>IsActive := p_active p\<rparr>)
       (put_slot (cur_slot s) (\<lambda>e. e\<lparr>Timestamp := p_ts p\<rparr>)
         (put_slot (cur_slot s) (\<lambda>e. e\<lparr>TID := p_tid p\<rparr>)
           (put_slot (cur_slot s) (\<lambda>e. e\<lparr>Addr := p_addr p\<rparr>) s)))"

definition write_trace :: "payload \<Rightarrow> 'a probe_scheme \<Rightarrow> 'a probe_scheme" where
  "write_trace p s =
     (let old_seq = Seq (Slots (pr_station s) ! cur_slot s)
      in wt_unlock p old_seq (wt_payload p (wt_lock p s)))"

text \<open>The effect on the station: the slot of this call holds the payload under the next even number.\<close>

definition fill_slot :: "payload \<Rightarrow> Epoch \<Rightarrow> Epoch" where
  "fill_slot p e =
     e\<lparr>Addr := p_addr p, TID := p_tid p, Timestamp := p_ts p, IsActive := p_active p, Seq := Seq e + 2\<rparr>"

lemma write_trace_fields [simp]:
  "pr_count (write_trace p s) = pr_count s + 1" "pr_stage (write_trace p s) = None"
  "pr_born (write_trace p s) = pr_born s" "pr_id (write_trace p s) = pr_id s"
  "Header (pr_station (write_trace p s)) = Header (pr_station s)"
  "pr_written (write_trace p s) = (pr_written s)(cur_slot s := pr_written s (cur_slot s) @ [p])"
  by (simp_all add: write_trace_def wt_unlock_def wt_payload_def wt_lock_def Let_def cur_slot_def)

lemma write_trace_slots:
  "length (Slots (pr_station s)) = 8 \<Longrightarrow>
   Slots (pr_station (write_trace p s)) =
     (Slots (pr_station s))[cur_slot s := fill_slot p (Slots (pr_station s) ! cur_slot s)]"
  using cur_slot_less [of s]
  by (simp add: write_trace_def wt_unlock_def wt_payload_def wt_lock_def Let_def cur_slot_def fill_slot_def)

lemma epoch_payload_fill [simp]: "epoch_payload (fill_slot p e) = p" "Seq (fill_slot p e) = Seq e + 2"
  by (simp_all add: epoch_payload_def fill_slot_def)

lemma wt_stores_steps:
  assumes "pr_stage s = Some (Locked, p, old)"
  shows "wt_store\<^sup>*\<^sup>* s ((wt_payload p s)\<lparr>pr_stage := Some (ActiveDone, p, old)\<rparr>)"
proof -
  have cur: "cur_slot (put_slot i f u) = cur_slot u" "cur_slot (u\<lparr>pr_stage := g\<rparr>) = cur_slot u"
    for i f g and u :: "'a probe_scheme"
    by (simp_all add: cur_slot_def)
  have comm: "put_slot i f (u\<lparr>pr_stage := g\<rparr>) = (put_slot i f u)\<lparr>pr_stage := g\<rparr>"
    for i f g and u :: "'a probe_scheme"
    by (simp add: put_slot_def)
  let ?a = "(put_slot (cur_slot s) (\<lambda>e. e\<lparr>Addr := p_addr p\<rparr>) s)\<lparr>pr_stage := Some (AddrDone, p, old)\<rparr>"
  let ?b = "(put_slot (cur_slot s) (\<lambda>e. e\<lparr>TID := p_tid p\<rparr>) ?a)\<lparr>pr_stage := Some (TidDone, p, old)\<rparr>"
  let ?c = "(put_slot (cur_slot s) (\<lambda>e. e\<lparr>Timestamp := p_ts p\<rparr>) ?b)\<lparr>pr_stage := Some (TsDone, p, old)\<rparr>"
  let ?d = "(put_slot (cur_slot s) (\<lambda>e. e\<lparr>IsActive := p_active p\<rparr>) ?c)\<lparr>pr_stage := Some (ActiveDone, p, old)\<rparr>"
  have "wt_store\<^sup>*\<^sup>* s ?a" using store_addr [OF assms] by (rule r_into_rtranclp)
  moreover have "wt_store ?a ?b" using store_tid [of ?a p old] by (simp add: cur)
  ultimately have "wt_store\<^sup>*\<^sup>* s ?b" by (rule rtranclp.rtrancl_into_rtrancl)
  moreover have "wt_store ?b ?c" using store_ts [of ?b p old] by (simp add: cur)
  ultimately have "wt_store\<^sup>*\<^sup>* s ?c" by (rule rtranclp.rtrancl_into_rtrancl)
  moreover have "wt_store ?c ?d" using store_active [of ?c p old] by (simp add: cur)
  ultimately have "wt_store\<^sup>*\<^sup>* s ?d" by (rule rtranclp.rtrancl_into_rtrancl)
  moreover have "?d = (wt_payload p s)\<lparr>pr_stage := Some (ActiveDone, p, old)\<rparr>"
    by (simp add: wt_payload_def cur comm)
  ultimately show ?thesis by simp
qed

lemma write_trace_steps:
  assumes "pr_born s" "pr_stage s = None" "cpp_payload p"
  shows "cpp_step\<^sup>*\<^sup>* s (write_trace p s)"
proof -
  let ?old = "Seq (Slots (pr_station s) ! cur_slot s)"
  let ?l = "wt_lock p s"
  let ?d = "(wt_payload p ?l)\<lparr>pr_stage := Some (ActiveDone, p, ?old)\<rparr>"
  have "wt_store\<^sup>*\<^sup>* ?l ?d"
    by (rule wt_stores_steps) (simp add: wt_lock_def Let_def)
  then have stores: "cpp_step\<^sup>*\<^sup>* ?l ?d"
    by (rule mono_rtranclp [rule_format, rotated]) (rule cpp_store)
  have unlock: "cpp_step ?d (wt_unlock p ?old ?d)" by (rule cpp_unlock) simp
  have "cpp_step\<^sup>*\<^sup>* s (wt_unlock p ?old ?d)"
    using cpp_lock [OF assms] stores unlock
    by (rule rtranclp.rtrancl_into_rtrancl [OF converse_rtranclp_into_rtranclp])
  moreover have "wt_unlock p ?old ?d = write_trace p s"
    by (simp add: write_trace_def wt_unlock_def put_slot_def wt_payload_def cur_slot_def Let_def)
  ultimately show ?thesis by simp
qed

lemma rust_write_steps:
  assumes "rust_step s (wt_lock p s)" "pr_stage s = None"
  shows "rust_step\<^sup>*\<^sup>* s ((write_trace p s)\<lparr>pt_pending := \<not> p_active p\<rparr>)"
proof -
  let ?old = "Seq (Slots (pr_station s) ! cur_slot s)"
  let ?l = "wt_lock p s"
  let ?d = "(wt_payload p ?l)\<lparr>pr_stage := Some (ActiveDone, p, ?old)\<rparr>"
  have "wt_store\<^sup>*\<^sup>* ?l ?d" by (rule wt_stores_steps) (simp add: wt_lock_def Let_def)
  then have stores: "rust_step\<^sup>*\<^sup>* ?l ?d"
    by (rule mono_rtranclp [rule_format, rotated]) (rule rust_store)
  have unlock: "rust_step ?d ((wt_unlock p ?old ?d)\<lparr>pt_pending := \<not> p_active p\<rparr>)" by (rule rust_unlock) simp
  have "rust_step\<^sup>*\<^sup>* s ((wt_unlock p ?old ?d)\<lparr>pt_pending := \<not> p_active p\<rparr>)"
    using assms(1) stores unlock by (rule rtranclp.rtrancl_into_rtrancl [OF converse_rtranclp_into_rtranclp])
  moreover have "wt_unlock p ?old ?d = write_trace p s"
    by (simp add: write_trace_def wt_unlock_def put_slot_def wt_payload_def cur_slot_def Let_def)
  ultimately show ?thesis by simp
qed

lemma rust_trace_steps:
  "pr_born s \<Longrightarrow> pr_stage s = None \<Longrightarrow> \<not> p_active p \<Longrightarrow> rust_step\<^sup>*\<^sup>* s ((write_trace p s)\<lparr>pt_pending := True\<rparr>)"
  using rust_write_steps [OF rust_on_pending, of s p] by simp

section \<open>Allocating a station\<close>

text \<open>The constructor of a probe takes the next index with \<^verbatim>\<open>fetch_add\<close> and gets a station when the index
  is below \<^verbatim>\<open>max_stations\<close>; otherwise it runs untraced.\<close>

definition probe_alloc :: "GlobalHeader \<Rightarrow> GlobalHeader \<times> nat option" where
  "probe_alloc h =
     (let idx = AllocatedCount h
      in (h\<lparr>AllocatedCount := idx + 1\<rparr>, if idx < MaxStations h then Some (unat idx) else None))"

fun alloc_many :: "nat \<Rightarrow> GlobalHeader \<Rightarrow> GlobalHeader" where
  "alloc_many 0 h = h"
| "alloc_many (Suc n) h = alloc_many n (fst (probe_alloc h))"

lemma alloc_many_count:
  "AllocatedCount (alloc_many n h) = AllocatedCount h + word_of_nat n \<and>
   MaxStations (alloc_many n h) = MaxStations h"
  by (induction n arbitrary: h) (auto simp: probe_alloc_def Let_def)

end
