(* ===== verification/Engine.thy ===== *)
theory Engine
  imports Station
begin

text \<open>
  The tracer engine of \<^verbatim>\<open>engine/engine.go\<close>: \<^verbatim>\<open>NewTracerEngine\<close> with every error path, \<^verbatim>\<open>doScan\<close>,
  \<^verbatim>\<open>hotHarvestLoop\<close>, \<^verbatim>\<open>Run\<close> and \<^verbatim>\<open>Close\<close>. Shared memory is a run \<open>nat \<Rightarrow> shm\<close> as in theory \<open>Station\<close>; what
  the operating system answers is an argument.
\<close>

section \<open>Memory, constants and state\<close>

definition HeaderSize :: nat where "HeaderSize = 1024"
definition StationSize :: nat where "StationSize = 1024"

record shm =
  sh_header :: GlobalHeader
  sh_stations :: "StationData list"

type_synonym shm_run = "nat \<Rightarrow> shm"

definition shm_view :: "u8 list \<Rightarrow> nat \<Rightarrow> shm" where
  "shm_view m n = \<lparr>sh_header = decode_header m, sh_stations = stations_view m n\<rparr>"

record TracerEngine =
  eng_mmap :: "u8 list"
  eng_writer :: StationWriter
  eng_maxStations :: u32
  eng_lastSeen :: "u64 list list"
  eng_listening :: bool
  eng_mapped :: bool
  eng_shm_open :: bool

section \<open>Construction\<close>

text \<open>What the system calls of \<^verbatim>\<open>NewTracerEngine\<close> return. \<open>shm_old\<close> is a file already at the path and
  \<open>shm_removed\<close> whether \<^verbatim>\<open>os.Remove\<close>, whose error is ignored, took it away.\<close>

record os_setup =
  shm_old :: "u8 list option"
  shm_removed :: bool
  open_err :: "os_err option"
  truncate_err :: "os_err option"
  mmap_err :: "os_err option"
  listen_err :: "os_err option"
  log_opened :: "os_err + os_file"

datatype resource = ShmFile | Mapping | Listener

text \<open>An engine, an error with the resources that were acquired and not released, or a run-time panic. Each system call that
  succeeds adds its resource to those held (the log file only when the engine is complete); no error path of the
  code releases one.\<close>

datatype init_result = Started TracerEngine | InitError os_err "resource list" | InitPanic "resource list"

definition truncate_to :: "nat \<Rightarrow> u8 list \<Rightarrow> u8 list" where
  "truncate_to n bs = take n (bs @ replicate n 0)"

definition init_header :: "u32 \<Rightarrow> u8 list \<Rightarrow> u8 list" where
  "init_header stationCount m =
     (let m = store_u64 m 0x00 0x434F524F54524352;
          m = store_u32 m 0x08 1;
          m = store_u32 m 0x0C stationCount;
          m = store_u32 m 0x10 0
      in store_u32 m 0x14 0)"

definition acquire :: "resource \<Rightarrow> resource list \<Rightarrow> resource list" where
  "acquire r held = held @ [r]"

definition NewTracerEngine :: "u32 \<Rightarrow> os_setup \<Rightarrow> init_result" where
  "NewTracerEngine stationCount os =
     (let memSize = HeaderSize + unat stationCount * StationSize;
          old = (case shm_old os of None \<Rightarrow> [] | Some bs \<Rightarrow> if shm_removed os then [] else bs);
          held = []
      in case open_err os of Some err \<Rightarrow> InitError err held | None \<Rightarrow>
         let held = acquire ShmFile held
         in case truncate_err os of Some err \<Rightarrow> InitError err held | None \<Rightarrow>
         case mmap_err os of Some err \<Rightarrow> InitError err held | None \<Rightarrow>
         let held = acquire Mapping held;
             mmapData = init_header stationCount (truncate_to memSize old)
         in if length mmapData \<le> HeaderSize then InitPanic held
            else case listen_err os of
                Some err \<Rightarrow> InitError (''listen uds failed: '' @ err) held
              | None \<Rightarrow>
                (let held = acquire Listener held
                 in case NewStationWriter (log_opened os) of
                   Inl err \<Rightarrow> InitError err held
                 | Inr writer \<Rightarrow> Started
                     \<lparr>eng_mmap = mmapData, eng_writer = writer, eng_maxStations = stationCount,
                      eng_lastSeen = replicate (unat stationCount) (replicate 8 0),
                      eng_listening = Listener \<in> set held, eng_mapped = Mapping \<in> set held,
                      eng_shm_open = ShmFile \<in> set held\<rparr>))"

text \<open>What an engine holds besides its log file.\<close>

definition eng_held :: "TracerEngine \<Rightarrow> resource set" where
  "eng_held e =
     (if eng_shm_open e then {ShmFile} else {}) \<union> (if eng_mapped e then {Mapping} else {}) \<union>
     (if eng_listening e then {Listener} else {})"

text \<open>The lengths the engine keeps: one row of eight counters per station.\<close>

definition wf_engine :: "TracerEngine \<Rightarrow> bool" where
  "wf_engine e \<longleftrightarrow>
     length (eng_lastSeen e) = unat (eng_maxStations e) \<and>
     (\<forall>row \<in> set (eng_lastSeen e). length row = 8) \<and> sw_ok (eng_writer e)"

section \<open>Scanning\<close>

fun scan_loop ::
  "shm_run \<Rightarrow> nat \<Rightarrow> nat list \<Rightarrow> u64 list list \<Rightarrow> StationWriter \<Rightarrow> nat \<Rightarrow>
   nat \<times> u64 list list \<times> StationWriter \<times> nat" where
  "scan_loop mem t [] lastSeen sw totalHarvested = (t, lastSeen, sw, totalHarvested)"
| "scan_loop mem t (i # is) lastSeen sw totalHarvested =
     (case Harvest (\<lambda>u. sh_stations (mem u) ! i) t (lastSeen ! i) sw of
        (t', seen, sw', n) \<Rightarrow> scan_loop mem t' is (lastSeen[i := seen]) sw' (totalHarvested + n))"

definition clamp_allocated :: "TracerEngine \<Rightarrow> u32 \<Rightarrow> u32" where
  "clamp_allocated e allocated =
     (if allocated > eng_maxStations e then eng_maxStations e else allocated)"

definition doScan :: "shm_run \<Rightarrow> nat \<Rightarrow> TracerEngine \<Rightarrow> nat \<times> TracerEngine \<times> nat" where
  "doScan mem t e =
     (let allocated = clamp_allocated e (AllocatedCount (sh_header (mem t)))
      in case scan_loop mem (t + 1) [0..<unat allocated] (eng_lastSeen e) (eng_writer e) 0 of
           (t', lastSeen, sw, totalHarvested) \<Rightarrow>
             (t', e\<lparr>eng_lastSeen := lastSeen, eng_writer := sw\<rparr>, totalHarvested))"

section \<open>The hot loop\<close>

text \<open>The outcome of \<^verbatim>\<open>conn.Read\<close> with its 50 ms deadline.\<close>

datatype read_outcome = ReadTimeout | ReadFailed | ReadBytes nat

definition eng_Flush :: "TracerEngine \<Rightarrow> TracerEngine" where
  "eng_Flush e = e\<lparr>eng_writer := fst (sw_Flush (eng_writer e))\<rparr>"

text \<open>The scan and flush before \<^verbatim>\<open>hotHarvestLoop\<close> returns.\<close>

definition last_scan :: "shm_run \<Rightarrow> nat \<Rightarrow> TracerEngine \<Rightarrow> nat \<times> TracerEngine" where
  "last_scan mem t e = (case doScan mem t e of (t', e', _) \<Rightarrow> (t', eng_Flush e'))"

text \<open>\<open>reads k\<close> is the outcome of the \<open>k\<close>-th call of \<^verbatim>\<open>conn.Read\<close>; the last component collects the
  stores to \<^verbatim>\<open>TracerSleeping\<close> with their times. The engine never loads that field. \<open>None\<close> means that
  the fuel, one unit per round of the loop, is used up.\<close>

fun hotHarvestLoop ::
  "nat \<Rightarrow> shm_run \<Rightarrow> (nat \<Rightarrow> read_outcome) \<Rightarrow> nat \<Rightarrow> nat \<Rightarrow> TracerEngine \<Rightarrow> (nat \<times> u32) list \<Rightarrow>
   (nat \<times> nat \<times> TracerEngine \<times> (nat \<times> u32) list) option" where
  "hotHarvestLoop 0 mem reads t k e stores = None"
| "hotHarvestLoop (Suc fuel) mem reads t k e stores =
     (case doScan mem t e of (t1, e1, harvested) \<Rightarrow>
        if harvested > 0 then hotHarvestLoop fuel mem reads t1 k e1 stores
        else
          let e2 = eng_Flush e1; stores = stores @ [(t1, 1)]
          in case doScan mem (t1 + 1) e2 of (t3, e3, again) \<Rightarrow>
               if again > 0 then hotHarvestLoop fuel mem reads (t3 + 1) k e3 (stores @ [(t3, 0)])
               else
                 case reads k of
                   ReadTimeout \<Rightarrow> hotHarvestLoop fuel mem reads (t3 + 1) (k + 1) e3 stores
                 | ReadFailed \<Rightarrow>
                     (case last_scan mem (t3 + 1) e3 of (t4, e4) \<Rightarrow> Some (t4, k + 1, e4, stores))
                 | ReadBytes n \<Rightarrow>
                     if n = 0 then
                       (case last_scan mem (t3 + 1) e3 of (t4, e4) \<Rightarrow> Some (t4, k + 1, e4, stores))
                     else hotHarvestLoop fuel mem reads (t3 + 2) (k + 1) e3 (stores @ [(t3 + 1, 0)]))"

section \<open>Accepting connections, closing\<close>

datatype accept_outcome = AcceptErr | AcceptConn "nat \<Rightarrow> read_outcome"

text \<open>\<open>n\<close> rounds of \<^verbatim>\<open>Run\<close>: a failed accept is printed and retried, a connection is served until its
  hot loop returns. \<^verbatim>\<open>Run\<close> has no other exit, so every further round starts.\<close>

fun Run ::
  "nat \<Rightarrow> nat \<Rightarrow> shm_run \<Rightarrow> (nat \<Rightarrow> accept_outcome) \<Rightarrow> nat \<Rightarrow> nat \<Rightarrow> TracerEngine \<Rightarrow>
   (nat \<times> TracerEngine) option" where
  "Run 0 fuel mem accepts j t e = Some (t, e)"
| "Run (Suc n) fuel mem accepts j t e =
     (case accepts j of
        AcceptErr \<Rightarrow> Run n fuel mem accepts (j + 1) t e
      | AcceptConn reads \<Rightarrow>
          (case hotHarvestLoop fuel mem reads t 0 e [] of
             None \<Rightarrow> None
           | Some (t', _, e', _) \<Rightarrow> Run n fuel mem accepts (j + 1) t' e'))"

text \<open>The nil checks of \<^verbatim>\<open>Close\<close> always pass on an engine that was started and are left out; releasing the listener, the mapping and
  the file clears their flags.\<close>

definition eng_Close :: "TracerEngine \<Rightarrow> TracerEngine" where
  "eng_Close e =
     e\<lparr>eng_writer := fst (sw_Close (eng_writer e)), eng_listening := False, eng_mapped := False,
       eng_shm_open := False\<rparr>"

section \<open>Records of a scan\<close>

type_synonym scan_record = "(nat \<times> nat) \<times> slot_event"

fun scan_events :: "shm_run \<Rightarrow> nat \<Rightarrow> nat list \<Rightarrow> u64 list list \<Rightarrow> scan_record list" where
  "scan_events mem t [] lastSeen = []"
| "scan_events mem t (i # is) lastSeen =
     (let st = (\<lambda>u. sh_stations (mem u) ! i) in
      map (\<lambda>(j, e). ((i, j), e)) (harvest_events st t (lastSeen ! i)) @
      scan_events mem (loop_time st t [0..<8] (lastSeen ! i)) is
        (lastSeen[i := loop_seen st t [0..<8] (lastSeen ! i)]))"

fun scan_seen :: "shm_run \<Rightarrow> nat \<Rightarrow> nat list \<Rightarrow> u64 list list \<Rightarrow> u64 list list" where
  "scan_seen mem t [] lastSeen = lastSeen"
| "scan_seen mem t (i # is) lastSeen =
     (let st = (\<lambda>u. sh_stations (mem u) ! i) in
      scan_seen mem (loop_time st t [0..<8] (lastSeen ! i)) is
        (lastSeen[i := loop_seen st t [0..<8] (lastSeen ! i)]))"

fun scan_time :: "shm_run \<Rightarrow> nat \<Rightarrow> nat list \<Rightarrow> u64 list list \<Rightarrow> nat" where
  "scan_time mem t [] lastSeen = t"
| "scan_time mem t (i # is) lastSeen =
     (let st = (\<lambda>u. sh_stations (mem u) ! i) in
      scan_time mem (loop_time st t [0..<8] (lastSeen ! i)) is
        (lastSeen[i := loop_seen st t [0..<8] (lastSeen ! i)]))"

lemma scan_loop_events:
  "scan_loop mem t is lastSeen sw n =
     (scan_time mem t is lastSeen, scan_seen mem t is lastSeen,
      write_events sw (map snd (scan_events mem t is lastSeen)),
      n + length (scan_events mem t is lastSeen))"
  by (induction "is" arbitrary: t lastSeen sw n)
     (auto simp: Harvest_eq write_events_def Let_def comp_def case_prod_beta)

text \<open>The stations one \<^verbatim>\<open>doScan\<close> visits and the records it logs.\<close>

definition scan_range :: "shm_run \<Rightarrow> nat \<Rightarrow> TracerEngine \<Rightarrow> nat list" where
  "scan_range mem t e = [0..<unat (clamp_allocated e (AllocatedCount (sh_header (mem t))))]"

definition doScan_events :: "shm_run \<Rightarrow> nat \<Rightarrow> TracerEngine \<Rightarrow> scan_record list" where
  "doScan_events mem t e = scan_events mem (t + 1) (scan_range mem t e) (eng_lastSeen e)"

lemma doScan_eq:
  "doScan mem t e =
     (scan_time mem (t + 1) (scan_range mem t e) (eng_lastSeen e),
      e\<lparr>eng_lastSeen := scan_seen mem (t + 1) (scan_range mem t e) (eng_lastSeen e),
        eng_writer := write_events (eng_writer e) (map snd (doScan_events mem t e))\<rparr>,
      length (doScan_events mem t e))"
  by (simp add: doScan_def scan_loop_events scan_range_def doScan_events_def Let_def)

lemma scan_range_bound: "set (scan_range mem t e) \<subseteq> {..<unat (eng_maxStations e)}"
  by (auto simp: scan_range_def clamp_allocated_def word_less_nat_alt not_less)

lemma distinct_scan_range [simp]: "distinct (scan_range mem t e)"
  by (simp add: scan_range_def)

lemma length_scan_seen [simp]: "length (scan_seen mem t is lastSeen) = length lastSeen"
  by (induction "is" arbitrary: t lastSeen) (auto simp: Let_def)

lemma scan_seen_rows:
  "\<forall>row \<in> set lastSeen. length row = 8 \<Longrightarrow> set is \<subseteq> {..<length lastSeen} \<Longrightarrow>
   \<forall>row \<in> set (scan_seen mem t is lastSeen). length row = 8"
proof (induction "is" arbitrary: t lastSeen)
  case (Cons i "is")
  let ?st = "\<lambda>u. sh_stations (mem u) ! i"
  let ?l = "lastSeen[i := loop_seen ?st t [0..<8] (lastSeen ! i)]"
  have "\<forall>row \<in> set ?l. length row = 8"
    using Cons.prems set_update_subset_insert [of lastSeen i "loop_seen ?st t [0..<8] (lastSeen ! i)"]
    by (auto dest!: subsetD)
  with Cons show ?case by (simp add: Let_def)
qed simp

lemma wf_doScan [wf_intros]:
  assumes "wf_engine e" "doScan mem t e = (t', e', n)"
  shows "wf_engine e' \<and> eng_maxStations e' = eng_maxStations e"
  using assms scan_range_bound [of mem t e]
    scan_seen_rows [of "eng_lastSeen e" "scan_range mem t e" mem "t + 1"]
  by (auto simp: wf_engine_def doScan_eq intro: write_events_ok)

lemma wf_eng_Flush [wf_intros]: "wf_engine e \<Longrightarrow> wf_engine (eng_Flush e)"
  by (simp add: wf_engine_def eng_Flush_def sw_Flush_ok)

lemma loop_time_mono: "t \<le> loop_time mem t is lastSeenSeqs"
  by (induction "is" arbitrary: t lastSeenSeqs) (auto, meson le_add1 le_trans)

lemma scan_time_mono: "t \<le> scan_time mem t is lastSeen"
  by (induction "is" arbitrary: t lastSeen) (auto simp: Let_def intro: le_trans [OF loop_time_mono])

lemma scan_seen_other: "i \<notin> set is \<Longrightarrow> scan_seen mem t is lastSeen ! i = lastSeen ! i"
  by (induction "is" arbitrary: t lastSeen) (auto simp: Let_def)

text \<open>Every record of a scan: read from one slot, newer than the counter, the counter follows.\<close>

lemma scan_events_in:
  assumes "((i, j), ev) \<in> set (scan_events mem t is lastSeen)" "distinct is"
    "set is \<subseteq> {..<length lastSeen}" "\<forall>row \<in> set lastSeen. length row = 8"
  shows "i \<in> set is \<and> j < 8 \<and> lastSeen ! i ! j < ev_seq ev \<and> even (unat (ev_seq ev)) \<and>
         scan_seen mem t is lastSeen ! i ! j = ev_seq ev \<and>
         (\<exists>u \<ge> t. slot_read (\<lambda>u. sh_stations (mem u) ! i) u j (lastSeen ! i ! j) = Some ev)"
  using assms
proof (induction "is" arbitrary: t lastSeen)
  case (Cons k "is")
  let ?st = "\<lambda>u. sh_stations (mem u) ! k"
  let ?seen = "loop_seen ?st t [0..<8] (lastSeen ! k)"
  let ?t = "loop_time ?st t [0..<8] (lastSeen ! k)"
  let ?l = "lastSeen[k := ?seen]"
  have row: "length (lastSeen ! k) = 8" using Cons.prems(3,4) by auto
  have rows: "\<forall>row \<in> set ?l. length row = 8"
    using Cons.prems(4) row set_update_subset_insert [of lastSeen k ?seen] by (auto dest!: subsetD)
  consider (here) "i = k" "(j, ev) \<in> set (harvest_events ?st t (lastSeen ! k))"
    | (later) "((i, j), ev) \<in> set (scan_events mem ?t is ?l)"
    using Cons.prems(1) by (auto simp: Let_def)
  then show ?case
  proof cases
    case here
    from loop_events_in [OF here(2)] row have
      "j < 8" "lastSeen ! k ! j < ev_seq ev" "even (unat (ev_seq ev))" "?seen ! j = ev_seq ev"
      "\<exists>u \<ge> t. slot_read ?st u j (lastSeen ! k ! j) = Some ev"
      by (auto simp: atLeast0LessThan)
    moreover have "scan_seen mem ?t is ?l ! k = ?seen"
      using Cons.prems(2,3) by (simp add: scan_seen_other)
    ultimately show ?thesis using here(1) by (simp add: Let_def)
  next
    case later
    have IH: "i \<in> set is" "j < 8" "?l ! i ! j < ev_seq ev" "even (unat (ev_seq ev))"
      "scan_seen mem ?t is ?l ! i ! j = ev_seq ev"
      "\<exists>u \<ge> ?t. slot_read (\<lambda>u. sh_stations (mem u) ! i) u j (?l ! i ! j) = Some ev"
      using Cons.IH [OF later] Cons.prems(2,3) rows by auto
    moreover have "?l ! i = lastSeen ! i" using IH(1) Cons.prems(2) by (metis distinct.simps(2) nth_list_update_neq)
    moreover have "t \<le> ?t" by (rule loop_time_mono)
    ultimately show ?thesis by (auto simp: Let_def intro: le_trans)
  qed
qed simp

lemma scan_events_distinct:
  "distinct is \<Longrightarrow> distinct (map fst (scan_events mem t is lastSeen)) \<and>
   fst ` fst ` set (scan_events mem t is lastSeen) \<subseteq> set is"
proof (induction "is" arbitrary: t lastSeen)
  case (Cons k "is")
  let ?st = "\<lambda>u. sh_stations (mem u) ! k"
  let ?es = "harvest_events ?st t (lastSeen ! k)"
  let ?rest = "scan_events mem (loop_time ?st t [0..<8] (lastSeen ! k)) is
      (lastSeen[k := loop_seen ?st t [0..<8] (lastSeen ! k)])"
  have IH: "distinct (map fst ?rest)" "fst ` fst ` set ?rest \<subseteq> set is" "k \<notin> set is"
    using Cons by auto
  have keys: "map fst (scan_events mem t (k # is) lastSeen) = map (Pair k) (map fst ?es) @ map fst ?rest"
    by (simp add: Let_def comp_def case_prod_beta)
  have "distinct (map (Pair k) (map fst ?es))"
    using loop_events_distinct [of "[0..<8]" ?st t "lastSeen ! k"]
    by (simp only: distinct_map) (auto intro: inj_onI)
  moreover have "set (map (Pair k) (map fst ?es)) \<inter> set (map fst ?rest) = {}"
    using IH(2,3) by force
  ultimately have "distinct (map fst (scan_events mem t (k # is) lastSeen))"
    using IH(1) by (simp only: keys distinct_append)
  moreover have "fst ` set (map fst (scan_events mem t (k # is) lastSeen)) \<subseteq> set (k # is)"
    using IH(2) by (simp only: keys set_append image_Un) auto
  ultimately show ?case by (simp only: set_map)
qed simp

lemma scan_seen_mono:
  assumes "i < length lastSeen" "j < 8" "\<forall>row \<in> set lastSeen. length row = 8"
    "set is \<subseteq> {..<length lastSeen}"
  shows "lastSeen ! i ! j \<le> scan_seen mem t is lastSeen ! i ! j"
  using assms
proof (induction "is" arbitrary: t lastSeen)
  case (Cons k "is")
  let ?st = "\<lambda>u. sh_stations (mem u) ! k"
  let ?l = "lastSeen[k := loop_seen ?st t [0..<8] (lastSeen ! k)]"
  have rows: "\<forall>row \<in> set ?l. length row = 8"
    using Cons.prems(3,4) set_update_subset_insert [of lastSeen k "loop_seen ?st t [0..<8] (lastSeen ! k)"]
    by (auto dest!: subsetD)
  have "lastSeen ! i ! j \<le> ?l ! i ! j"
    using Cons.prems loop_seen_mono [of j "lastSeen ! k" ?st t "[0..<8]"] by (cases "i = k") auto
  also have "?l ! i ! j \<le> scan_seen mem (loop_time ?st t [0..<8] (lastSeen ! k)) is ?l ! i ! j"
    using Cons.prems rows by (intro Cons.IH) auto
  finally show ?case by (simp add: Let_def)
qed simp

lemma scan_seen_miss:
  assumes "(i, j) \<notin> fst ` set (scan_events mem t is lastSeen)" "distinct is"
    "set is \<subseteq> {..<length lastSeen}" "\<forall>row \<in> set lastSeen. length row = 8"
  shows "scan_seen mem t is lastSeen ! i ! j = lastSeen ! i ! j"
  using assms
proof (induction "is" arbitrary: t lastSeen)
  case (Cons k "is")
  let ?st = "\<lambda>u. sh_stations (mem u) ! k"
  let ?seen = "loop_seen ?st t [0..<8] (lastSeen ! k)"
  let ?l = "lastSeen[k := ?seen]"
  have row: "length (lastSeen ! k) = 8" using Cons.prems(3,4) by auto
  have rows: "\<forall>row \<in> set ?l. length row = 8"
    using Cons.prems(4) row set_update_subset_insert [of lastSeen k ?seen] by (auto dest!: subsetD)
  have "scan_seen mem (loop_time ?st t [0..<8] (lastSeen ! k)) is ?l ! i ! j = ?l ! i ! j"
    using Cons.prems rows by (intro Cons.IH) (auto simp: Let_def)
  moreover have "?seen ! j = lastSeen ! k ! j" if "i = k"
  proof (rule loop_events_miss)
    show "j \<notin> fst ` set (harvest_events ?st t (lastSeen ! k))"
      using Cons.prems(1) that by (force simp: Let_def)
  qed (use row in auto)
  ultimately show ?case using Cons.prems(3) by (cases "i = k") (auto simp: Let_def)
qed simp

section \<open>A memory nobody writes\<close>

definition due_slots :: "shm \<Rightarrow> u64 list list \<Rightarrow> nat list \<Rightarrow> (nat \<times> nat) list" where
  "due_slots m lastSeen is =
     concat (map (\<lambda>i. map (Pair i) (filter (slot_due (sh_stations m ! i) (lastSeen ! i)) [0..<8])) is)"

lemma scan_events_const:
  "distinct is \<Longrightarrow> set is \<subseteq> {..<length lastSeen} \<Longrightarrow> \<forall>row \<in> set lastSeen. length row = 8 \<Longrightarrow>
   scan_events (\<lambda>_. m) t is lastSeen =
     map (\<lambda>(i, j). ((i, j), slot_record (sh_stations m ! i) j)) (due_slots m lastSeen is)"
proof (induction "is" arbitrary: t lastSeen)
  case (Cons k "is")
  let ?st = "\<lambda>u. sh_stations m ! k"
  let ?seen = "loop_seen ?st t [0..<8] (lastSeen ! k)"
  let ?l = "lastSeen[k := ?seen]"
  have row: "length (lastSeen ! k) = 8" using Cons.prems(2,3) by auto
  have rows: "\<forall>row \<in> set ?l. length row = 8"
    using Cons.prems(3) row set_update_subset_insert [of lastSeen k ?seen] by (auto dest!: subsetD)
  have same: "due_slots m ?l is = due_slots m lastSeen is"
    unfolding due_slots_def using Cons.prems(1)
    by (intro arg_cong [where f = concat] map_cong refl) (metis distinct.simps(2) nth_list_update_neq)
  have here: "harvest_events ?st t (lastSeen ! k)
      = map (\<lambda>i. (i, slot_record (sh_stations m ! k) i)) (filter (slot_due (sh_stations m ! k) (lastSeen ! k)) [0..<8])"
    using row by (intro loop_events_const) auto
  show ?case
    using Cons.IH [of ?l] Cons.prems rows same here
    by (simp add: Let_def due_slots_def comp_def)
qed (simp add: due_slots_def)

lemma due_slots_set:
  "(i, j) \<in> set (due_slots m lastSeen is) \<longleftrightarrow> i \<in> set is \<and> j < 8 \<and> slot_due (sh_stations m ! i) (lastSeen ! i) j"
  by (auto simp: due_slots_def)

text \<open>After one scan of a memory that stays as it is nothing is due any more.\<close>

lemma scan_seen_none_due:
  assumes "distinct is" "set is \<subseteq> {..<length lastSeen}" "\<forall>row \<in> set lastSeen. length row = 8"
  shows "due_slots m (scan_seen (\<lambda>_. m) t is lastSeen) is = []"
proof -
  have "\<not> slot_due (sh_stations m ! i) (scan_seen (\<lambda>_. m) t is lastSeen ! i) j"
    if "i \<in> set is" "j < 8" for i j
  proof (cases "slot_due (sh_stations m ! i) (lastSeen ! i) j")
    case True
    then have "((i, j), slot_record (sh_stations m ! i) j) \<in> set (scan_events (\<lambda>_. m) t is lastSeen)"
      using assms that by (force simp: scan_events_const due_slots_set)
    from scan_events_in [OF this assms] show ?thesis
      by (simp add: slot_due_def slot_record_def Let_def)
  next
    case False
    then have "(i, j) \<notin> fst ` set (scan_events (\<lambda>_. m) t is lastSeen)"
      using assms by (auto simp: scan_events_const due_slots_set)
    from scan_seen_miss [OF this assms] False show ?thesis
      by (simp add: slot_due_def)
  qed
  then show ?thesis by (auto simp: due_slots_def)
qed

section \<open>Starting an engine\<close>

lemma length_init_header: "24 \<le> length m \<Longrightarrow> length (init_header n m) = length m"
  by (simp add: init_header_def Let_def)

lemma decode_init_header:
  assumes "24 \<le> length m"
  shows "decode_header (init_header n m) =
     \<lparr>MagicNum = 0x434F524F54524352, Version = 1, MaxStations = n, AllocatedCount = 0, TracerSleeping = 0\<rparr>"
proof -
  have same: "load_u32 (store_u32 m' off v) off = v" if "off + 4 \<le> length m'" for m' off v
    using that by (rule load_u32_store_u32)
  have o32: "load_u32 (store_u32 m' off v) off' = load_u32 m' off'"
    if "off + 4 \<le> length m'" "off' + 4 \<le> off" for m' off v off'
    using that by (simp add: load_u32_def load_store_u32_other)
  have o64: "load_u64 (store_u32 m' off v) 0 = load_u64 m' 0"
    if "off + 4 \<le> length m'" "8 \<le> off" for m' off v
    using that by (simp add: load_u64_def load_store_u32_other)
  show ?thesis
    using assms by (simp add: init_header_def decode_header_def Let_def same o32 o64 load_u64_store_u64)
qed

lemma init_header_above:
  "24 \<le> off \<Longrightarrow> off + k \<le> length m \<Longrightarrow> load k (init_header n m) off = load k m off"
  by (simp add: init_header_def Let_def load_store_u32_other load_store_u64_other)

lemma stations_init_header:
  "1024 + n * 1024 \<le> length m \<Longrightarrow> stations_view (init_header c m) n = stations_view m n"
  unfolding stations_view_def
  by (intro map_cong refl decode_station_cong init_header_above) (auto simp: station_off_def)

lemma stations_view_zeros: "stations_view (replicate (1024 + n * 1024) 0) n = replicate n zero_station"
  by (rule nth_equalityI) (auto simp: stations_view_def station_off_def intro!: decode_zero_station)

definition old_shm :: "os_setup \<Rightarrow> u8 list" where
  "old_shm os = (case shm_old os of None \<Rightarrow> [] | Some bs \<Rightarrow> if shm_removed os then [] else bs)"

lemma length_truncate_to [simp]: "length (truncate_to n bs) = n"
  by (simp add: truncate_to_def)

lemma NewTracerEngine_Started:
  "NewTracerEngine n os = Started e \<longleftrightarrow>
     open_err os = None \<and> truncate_err os = None \<and> mmap_err os = None \<and> n \<noteq> 0 \<and> listen_err os = None \<and>
     (\<exists>f. log_opened os = Inr f \<and> e =
        \<lparr>eng_mmap = init_header n (truncate_to (1024 + unat n * 1024) (old_shm os)),
         eng_writer = \<lparr>sw_writer = NewWriterSize f (128 * 1024), sw_line = []\<rparr>,
         eng_maxStations = n, eng_lastSeen = replicate (unat n) (replicate 8 0),
         eng_listening = True, eng_mapped = True, eng_shm_open = True\<rparr>)"
  by (auto simp: NewTracerEngine_def acquire_def Let_def old_shm_def HeaderSize_def StationSize_def length_init_header
      NewStationWriter_def unat_eq_0 split: option.splits sum.splits)

text \<open>The system calls of the constructor before the listener all succeed.\<close>

definition shm_ready :: "os_setup \<Rightarrow> bool" where
  "shm_ready os \<longleftrightarrow> open_err os = None \<and> truncate_err os = None \<and> mmap_err os = None"

section \<open>Properties of the constructor\<close>

text \<open>C25: \<^verbatim>\<open>NewTracerEngine\<close> starts an engine exactly when no system call fails and the station count is not
  0; with count 0 it panics (index out of range on \<^verbatim>\<open>mmapData[HeaderSize]\<close>) although every call for the memory
  succeeded. Each failure returns the error of the call that failed, the first one in the order of the calls, and leaves
  open what the calls before it acquired: nothing when the shared-memory file cannot be opened, the file when it cannot be sized or
  mapped, the file and its mapping after the panic or when the socket cannot be opened, and the listener as well when the
  log cannot. A started engine holds all three until \<^verbatim>\<open>Close\<close>, which releases them.\<close>

theorem NewTracerEngine_outcomes:
  "((\<exists>e. NewTracerEngine n os = Started e) \<longleftrightarrow>
      shm_ready os \<and> n \<noteq> 0 \<and> listen_err os = None \<and> (\<exists>f. log_opened os = Inr f)) \<and>
   (NewTracerEngine n os = InitPanic left \<longleftrightarrow> shm_ready os \<and> n = 0 \<and> left = [ShmFile, Mapping]) \<and>
   (NewTracerEngine n os = InitError err left \<longleftrightarrow>
      open_err os = Some err \<and> left = [] \<or>
      open_err os = None \<and> truncate_err os = Some err \<and> left = [ShmFile] \<or>
      open_err os = None \<and> truncate_err os = None \<and> mmap_err os = Some err \<and> left = [ShmFile] \<or>
      shm_ready os \<and> n \<noteq> 0 \<and> (\<exists>msg. listen_err os = Some msg \<and> err = ''listen uds failed: '' @ msg) \<and> left = [ShmFile, Mapping] \<or>
      shm_ready os \<and> n \<noteq> 0 \<and> listen_err os = None \<and> log_opened os = Inl err \<and> left = [ShmFile, Mapping, Listener]) \<and>
   (NewTracerEngine n os = Started e \<longrightarrow>
      eng_held e = {ShmFile, Mapping, Listener} \<and> eng_held (eng_Close e) = {} \<and>
      file_open (bw_sink (sw_writer (eng_writer (eng_Close e)))) = False)"
proof (intro conjI)
  show "NewTracerEngine n os = Started e \<longrightarrow>
      eng_held e = {ShmFile, Mapping, Listener} \<and> eng_held (eng_Close e) = {} \<and>
      file_open (bw_sink (sw_writer (eng_writer (eng_Close e)))) = False"
    unfolding NewTracerEngine_Started
    by (auto simp: eng_held_def eng_Close_def sw_Close_def os_close_def Let_def)
qed (auto simp: NewTracerEngine_def acquire_def shm_ready_def Let_def HeaderSize_def StationSize_def length_init_header
      NewStationWriter_def unat_eq_0 split: option.splits sum.splits)

text \<open>C26: A started engine is well formed (one row of eight zero counters per station, an empty 128 KiB
  buffer), maps 1024 bytes for the header and 1024 per station, has published the magic number, version 1, the
  station count, no allocated station and \<^verbatim>\<open>TracerSleeping\<close> 0; and unless a file left from an
  earlier run could not be removed, every station is zero.\<close>

theorem NewTracerEngine_started:
  assumes "NewTracerEngine n os = Started e"
  shows "wf_engine e \<and> length (eng_mmap e) = sizeof GlobalHeader_type + unat n * sizeof StationData_type \<and>
         eng_maxStations e = n \<and> eng_lastSeen e = replicate (unat n) (replicate 8 0) \<and>
         sh_header (shm_view (eng_mmap e) (unat n)) =
           \<lparr>MagicNum = 0x434F524F54524352, Version = 1, MaxStations = n, AllocatedCount = 0, TracerSleeping = 0\<rparr> \<and>
         (shm_old os = None \<or> shm_removed os \<longrightarrow>
            sh_stations (shm_view (eng_mmap e) (unat n)) = replicate (unat n) zero_station)"
proof -
  let ?m = "truncate_to (1024 + unat n * 1024) (old_shm os)"
  obtain f where e: "e = \<lparr>eng_mmap = init_header n ?m,
         eng_writer = \<lparr>sw_writer = NewWriterSize f (128 * 1024), sw_line = []\<rparr>,
         eng_maxStations = n, eng_lastSeen = replicate (unat n) (replicate 8 0),
         eng_listening = True, eng_mapped = True, eng_shm_open = True\<rparr>"
    using assms unfolding NewTracerEngine_Started by blast
  have "sizeof GlobalHeader_type = 1024" "sizeof StationData_type = 1024" by (simp_all add: layout_simps)
  moreover have "wf_engine e" by (simp add: e wf_engine_def sw_ok_def bw_ok_def NewWriterSize_def)
  moreover have "stations_view (init_header n ?m) (unat n) = replicate (unat n) zero_station"
    if "shm_old os = None \<or> shm_removed os"
  proof -
    have "?m = replicate (1024 + unat n * 1024) 0"
      using that by (auto simp: old_shm_def truncate_to_def split: option.splits)
    then show ?thesis using stations_view_zeros by (simp add: stations_init_header)
  qed
  ultimately show ?thesis
    by (simp add: e shm_view_def length_init_header decode_init_header)
qed

definition demo_os :: os_setup where
  "demo_os = \<lparr>shm_old = Some [1, 2, 3], shm_removed = True, open_err = None, truncate_err = None,
     mmap_err = None, listen_err = None,
     log_opened = Inr \<lparr>file_bytes = ''{}'' @ [newline], file_room = 1000000, file_open = True\<rparr>\<rparr>"

theorem NewTracerEngine_outcomes_witness:
  "\<exists>e. NewTracerEngine 2 demo_os = Started e \<and> eng_held e = {ShmFile, Mapping, Listener} \<and> eng_held (eng_Close e) = {} \<and>
     NewTracerEngine 2 (demo_os\<lparr>listen_err := Some ''in use''\<rparr>) = InitError ''listen uds failed: in use'' [ShmFile, Mapping]"
proof -
  obtain e where e: "NewTracerEngine 2 demo_os = Started e"
    by (auto simp: NewTracerEngine_Started demo_os_def)
  have "shm_ready (demo_os\<lparr>listen_err := x\<rparr>)" for x by (simp add: shm_ready_def demo_os_def)
  then have "NewTracerEngine 2 (demo_os\<lparr>listen_err := Some ''in use''\<rparr>) = InitError ''listen uds failed: in use'' [ShmFile, Mapping]"
    using NewTracerEngine_outcomes [of 2 "demo_os\<lparr>listen_err := Some ''in use''\<rparr>" "[ShmFile, Mapping]" "''listen uds failed: in use''"]
    by simp
  moreover have "eng_held e = {ShmFile, Mapping, Listener}" "eng_held (eng_Close e) = {}"
    using NewTracerEngine_outcomes [of 2 demo_os "[]" "[]" e, THEN conjunct2, THEN conjunct2, THEN conjunct2, THEN mp, OF e] by simp_all
  ultimately show ?thesis using e by (intro exI [of _ e]) simp
qed

theorem NewTracerEngine_started_witness:
  "\<exists>e. NewTracerEngine 2 demo_os = Started e \<and> wf_engine e \<and> length (eng_mmap e) = 3072 \<and>
       sh_stations (shm_view (eng_mmap e) 2) = [zero_station, zero_station]"
proof -
  obtain e where e: "NewTracerEngine 2 demo_os = Started e"
    by (auto simp: NewTracerEngine_Started demo_os_def)
  have "sizeof GlobalHeader_type = 1024" "sizeof StationData_type = 1024" by (simp_all add: layout_simps)
  moreover have "replicate 2 zero_station = [zero_station, zero_station]" by (simp add: eval_nat_numeral)
  moreover have "shm_removed demo_os" by (simp add: demo_os_def)
  ultimately show ?thesis using e NewTracerEngine_started [OF e] by auto
qed

end
