(* ===== verification/Engine_Scan.thy ===== *)
theory Engine_Scan
  imports Engine
begin

text \<open>
  What scans do over time: every record is logged at most once and in increasing order per slot, a
  scan of a memory that stays as it is logs exactly the due slots, and a scan of a memory that
  changes meanwhile still logs every finished record that stays in its slot.
\<close>

section \<open>Sequences of scans\<close>

text \<open>The engine after one scan, and the records of scans started at the given times.\<close>

definition scanned :: "shm_run \<Rightarrow> nat \<Rightarrow> TracerEngine \<Rightarrow> TracerEngine" where
  "scanned mem t e = fst (snd (doScan mem t e))"

fun scan_history :: "shm_run \<Rightarrow> nat list \<Rightarrow> TracerEngine \<Rightarrow> scan_record list" where
  "scan_history mem [] e = []"
| "scan_history mem (t # ts) e = doScan_events mem t e @ scan_history mem ts (scanned mem t e)"

fun scan_all :: "shm_run \<Rightarrow> nat list \<Rightarrow> TracerEngine \<Rightarrow> TracerEngine" where
  "scan_all mem [] e = e"
| "scan_all mem (t # ts) e = scan_all mem ts (scanned mem t e)"

lemma wf_scanned [wf_intros]: "wf_engine e \<Longrightarrow> wf_engine (scanned mem t e)"
  using wf_doScan [of e mem t] unfolding scanned_def by (metis prod.collapse)

lemma scanned_max [simp]: "eng_maxStations (scanned mem t e) = eng_maxStations e"
  by (simp add: scanned_def doScan_eq)

text \<open>Two engines with the same counters log the same; flushing changes no counter.\<close>

definition same_counters :: "TracerEngine \<Rightarrow> TracerEngine \<Rightarrow> bool" where
  "same_counters e e' \<longleftrightarrow> eng_lastSeen e = eng_lastSeen e' \<and> eng_maxStations e = eng_maxStations e'"

lemma same_counters_refl [simp]: "same_counters e e"
  by (simp add: same_counters_def)

lemma same_counters_Flush [simp]: "same_counters e (eng_Flush e)"
  by (simp add: same_counters_def eng_Flush_def)

lemma same_counters_scan:
  "same_counters e e' \<Longrightarrow> doScan_events mem t e = doScan_events mem t e' \<and>
   same_counters (scanned mem t e) (scanned mem t e')"
  by (simp add: same_counters_def doScan_events_def scanned_def doScan_eq scan_range_def clamp_allocated_def)

lemma same_counters_history:
  "same_counters e e' \<Longrightarrow> scan_history mem ts e = scan_history mem ts e'"
  using same_counters_scan by (induction ts arbitrary: e e') fastforce+

lemma wf_rows: "wf_engine e \<Longrightarrow> set (scan_range mem t e) \<subseteq> {..<length (eng_lastSeen e)}"
  using scan_range_bound by (simp add: wf_engine_def)

lemma doScan_events_in:
  assumes "wf_engine e" "((i, j), ev) \<in> set (doScan_events mem t e)"
  shows "i < unat (eng_maxStations e) \<and> j < 8 \<and> eng_lastSeen e ! i ! j < ev_seq ev \<and>
         even (unat (ev_seq ev)) \<and> eng_lastSeen (scanned mem t e) ! i ! j = ev_seq ev \<and>
         (\<exists>u > t. slot_read (\<lambda>u. sh_stations (mem u) ! i) u j (eng_lastSeen e ! i ! j) = Some ev)"
  using scan_events_in [OF assms(2) [unfolded doScan_events_def] distinct_scan_range wf_rows [OF assms(1)]]
    assms(1) scan_range_bound [of mem t e]
  by (auto simp: wf_engine_def scanned_def doScan_eq Suc_le_eq)

lemma scanned_mono:
  assumes "wf_engine e" "i < unat (eng_maxStations e)" "j < 8"
  shows "eng_lastSeen e ! i ! j \<le> eng_lastSeen (scanned mem t e) ! i ! j"
  using scan_seen_mono [of i "eng_lastSeen e" j "scan_range mem t e" mem "t + 1"] assms
    wf_rows [OF assms(1)]
  by (simp add: wf_engine_def scanned_def doScan_eq)

lemma scan_history_above:
  "wf_engine e \<Longrightarrow> ((i, j), ev) \<in> set (scan_history mem ts e) \<Longrightarrow>
   i < unat (eng_maxStations e) \<and> j < 8 \<and> eng_lastSeen e ! i ! j < ev_seq ev \<and> even (unat (ev_seq ev))"
proof (induction ts arbitrary: e)
  case (Cons t ts)
  show ?case
  proof (cases "((i, j), ev) \<in> set (doScan_events mem t e)")
    case True
    with doScan_events_in [OF Cons.prems(1)] show ?thesis by blast
  next
    case False
    with Cons.prems(2) have "((i, j), ev) \<in> set (scan_history mem ts (scanned mem t e))" by simp
    from Cons.IH [OF wf_scanned [OF Cons.prems(1)] this] Cons.prems(1) show ?thesis
      by (auto intro: le_less_trans scanned_mono)
  qed
qed simp

lemma scan_history_read:
  "wf_engine e \<Longrightarrow> ((i, j), ev) \<in> set (scan_history mem ts e) \<Longrightarrow>
   \<exists>u l. i < unat (eng_maxStations e) \<and> j < 8 \<and> slot_read (\<lambda>u. sh_stations (mem u) ! i) u j l = Some ev"
proof (induction ts arbitrary: e)
  case (Cons t ts)
  show ?case
  proof (cases "((i, j), ev) \<in> set (doScan_events mem t e)")
    case True
    with doScan_events_in [OF Cons.prems(1)] show ?thesis by blast
  next
    case False
    with Cons.prems(2) Cons.IH [OF wf_scanned [OF Cons.prems(1)]] show ?thesis by simp
  qed
qed simp

definition slot_log :: "nat \<Rightarrow> nat \<Rightarrow> scan_record list \<Rightarrow> u64 list" where
  "slot_log i j rs = map (\<lambda>r. ev_seq (snd r)) (filter (\<lambda>r. fst r = (i, j)) rs)"

lemma slot_log_append [simp]: "slot_log i j (xs @ ys) = slot_log i j xs @ slot_log i j ys"
  by (simp add: slot_log_def)

lemma distinct_keys_slot_log: "distinct (map fst rs) \<Longrightarrow> length (slot_log i j rs) \<le> 1"
proof -
  assume "distinct (map fst rs)"
  then have "distinct (map fst (filter (\<lambda>r. fst r = (i, j)) rs))" by (rule distinct_map_filter)
  moreover have "set (map fst (filter (\<lambda>r. fst r = (i, j)) rs)) \<subseteq> {(i, j)}" by auto
  ultimately have "length (map fst (filter (\<lambda>r. fst r = (i, j)) rs)) \<le> card {(i, j)}"
    by (metis card_mono distinct_card finite.emptyI finite.insertI)
  then show ?thesis by (simp add: slot_log_def)
qed

lemma slot_log_increasing:
  "wf_engine e \<Longrightarrow> sorted_wrt (<) (slot_log i j (scan_history mem ts e))"
proof (induction ts arbitrary: e)
  case Nil
  then show ?case by (simp add: slot_log_def)
next
  case (Cons t ts)
  let ?here = "slot_log i j (doScan_events mem t e)"
  have one: "length ?here \<le> 1"
    using scan_events_distinct [OF distinct_scan_range] distinct_keys_slot_log
    by (simp add: doScan_events_def)
  have below: "x < y" if x: "x \<in> set ?here" and y: "y \<in> set (slot_log i j (scan_history mem ts (scanned mem t e)))" for x y
  proof -
    from x obtain ev where "((i, j), ev) \<in> set (doScan_events mem t e)" "x = ev_seq ev"
      by (auto simp: slot_log_def)
    then have "eng_lastSeen (scanned mem t e) ! i ! j = x"
      using doScan_events_in [OF Cons.prems] by blast
    moreover from y obtain ev' where "((i, j), ev') \<in> set (scan_history mem ts (scanned mem t e))" "y = ev_seq ev'"
      by (auto simp: slot_log_def)
    ultimately show ?thesis
      using scan_history_above [OF wf_scanned [OF Cons.prems]] by blast
  qed
  have "sorted_wrt (<) ?here" using one by (cases ?here) auto
  with below Cons.IH [OF wf_scanned [OF Cons.prems]] show ?case
    by (simp add: sorted_wrt_append)
qed

text \<open>The counter of a slot is the last number logged for it.\<close>

lemma slot_log_scan:
  assumes "wf_engine e" "i < unat (eng_maxStations e)"
  shows "eng_lastSeen (scanned mem t e) ! i ! j = last (eng_lastSeen e ! i ! j # slot_log i j (doScan_events mem t e))"
proof (cases "slot_log i j (doScan_events mem t e) = []")
  case True
  then have "(i, j) \<notin> fst ` set (scan_events mem (t + 1) (scan_range mem t e) (eng_lastSeen e))"
    by (auto simp: slot_log_def filter_empty_conv doScan_events_def)
  from scan_seen_miss [OF this distinct_scan_range wf_rows [OF assms(1)]] True assms(1) show ?thesis
    by (simp add: scanned_def doScan_eq wf_engine_def)
next
  case False
  then have "last (slot_log i j (doScan_events mem t e)) \<in> set (slot_log i j (doScan_events mem t e))" by simp
  then obtain ev where "((i, j), ev) \<in> set (doScan_events mem t e)" "last (slot_log i j (doScan_events mem t e)) = ev_seq ev"
    by (auto simp: slot_log_def)
  with doScan_events_in [OF assms(1) this(1)] False show ?thesis by simp
qed

lemma lastSeen_last:
  "wf_engine e \<Longrightarrow> i < unat (eng_maxStations e) \<Longrightarrow>
   eng_lastSeen (scan_all mem ts e) ! i ! j = last (eng_lastSeen e ! i ! j # slot_log i j (scan_history mem ts e))"
proof (induction ts arbitrary: e)
  case (Cons t ts)
  have "eng_lastSeen (scan_all mem ts (scanned mem t e)) ! i ! j =
      last (eng_lastSeen (scanned mem t e) ! i ! j # slot_log i j (scan_history mem ts (scanned mem t e)))"
    using Cons.prems by (intro Cons.IH) (auto intro: wf_scanned)
  with slot_log_scan [OF Cons.prems, of mem t j] show ?case by (simp split: if_splits)
qed (simp add: slot_log_def)

section \<open>Scans only look forward\<close>

lemma slot_read_cong:
  "(\<And>u. t \<le> u \<Longrightarrow> mem u = mem' u) \<Longrightarrow> slot_read mem t i l = slot_read mem' t i l \<and> slot_ticks mem t i l = slot_ticks mem' t i l"
  by (simp add: slot_read_def slot_ticks_def)

lemma loop_cong:
  "(\<And>u. t \<le> u \<Longrightarrow> mem u = mem' u) \<Longrightarrow>
   loop_events mem t is l = loop_events mem' t is l \<and> loop_seen mem t is l = loop_seen mem' t is l \<and>
   loop_time mem t is l = loop_time mem' t is l"
proof (induction "is" arbitrary: t l)
  case (Cons i "is")
  have eq: "slot_read mem t i x = slot_read mem' t i x" "slot_ticks mem t i x = slot_ticks mem' t i x" for x
    using slot_read_cong [of t mem mem' i x] Cons.prems by auto
  show ?case
    unfolding loop_events.simps loop_seen.simps loop_time.simps eq Let_def
    using Cons.IH [of "t + slot_ticks mem' t i (l ! i)"] Cons.prems by simp
qed simp

lemma scan_cong:
  "(\<And>u. t \<le> u \<Longrightarrow> mem u = mem' u) \<Longrightarrow>
   scan_events mem t is l = scan_events mem' t is l \<and> scan_seen mem t is l = scan_seen mem' t is l \<and>
   scan_time mem t is l = scan_time mem' t is l"
proof (induction "is" arbitrary: t l)
  case (Cons i "is")
  let ?st = "\<lambda>u. sh_stations (mem u) ! i" and ?st' = "\<lambda>u. sh_stations (mem' u) ! i"
  have eq: "harvest_events ?st t x = harvest_events ?st' t x"
    "loop_seen ?st t [0..<8] x = loop_seen ?st' t [0..<8] x"
    "loop_time ?st t [0..<8] x = loop_time ?st' t [0..<8] x" for x
    using loop_cong [of t ?st ?st' "[0..<8]" x] Cons.prems by auto
  have later: "mem u = mem' u" if "loop_time ?st' t [0..<8] (l ! i) \<le> u" for u
    using that loop_time_mono [of t ?st' "[0..<8]" "l ! i"] Cons.prems by simp
  show ?case
    unfolding scan_events.simps scan_seen.simps scan_time.simps Let_def eq
    using Cons.IH [OF later] by simp
qed simp

lemma doScan_cong:
  assumes "\<And>u. t \<le> u \<Longrightarrow> mem u = mem' u"
  shows "doScan mem t e = doScan mem' t e"
proof -
  have "scan_range mem t e = scan_range mem' t e" using assms by (simp add: scan_range_def)
  with scan_cong [of "t + 1" mem mem'] assms show ?thesis
    by (simp add: doScan_eq doScan_events_def)
qed

section \<open>Quiet memory\<close>

definition all_due :: "shm \<Rightarrow> TracerEngine \<Rightarrow> (nat \<times> nat) list" where
  "all_due m e = due_slots m (eng_lastSeen e) (scan_range (\<lambda>_. m) 0 e)"

lemma scan_range_const: "scan_range (\<lambda>_. m) t e = scan_range (\<lambda>_. m) 0 e"
  by (simp add: scan_range_def)

lemma scan_range_scanned [simp]: "scan_range mem t (scanned mem' u e) = scan_range mem t e"
  by (simp add: scan_range_def clamp_allocated_def)

lemma doScan_quiet:
  assumes "wf_engine e"
  shows "doScan_events (\<lambda>_. m) t e =
           map (\<lambda>(i, j). ((i, j), slot_record (sh_stations m ! i) j)) (all_due m e) \<and>
         all_due m (scanned (\<lambda>_. m) t e) = []"
proof
  have rows: "\<forall>row \<in> set (eng_lastSeen e). length row = 8" using assms by (simp add: wf_engine_def)
  show "doScan_events (\<lambda>_. m) t e =
      map (\<lambda>(i, j). ((i, j), slot_record (sh_stations m ! i) j)) (all_due m e)"
    using scan_events_const [OF distinct_scan_range wf_rows [OF assms] rows]
    by (simp add: doScan_events_def all_due_def scan_range_const [of m t])
  have "due_slots m (scan_seen (\<lambda>_. m) (t + 1) (scan_range (\<lambda>_. m) t e) (eng_lastSeen e))
      (scan_range (\<lambda>_. m) t e) = []"
    using scan_seen_none_due [OF distinct_scan_range wf_rows [OF assms] rows] .
  then show "all_due m (scanned (\<lambda>_. m) t e) = []"
    unfolding all_due_def scan_range_scanned
    by (simp add: scanned_def doScan_eq scan_range_const [of m t])
qed

lemma all_due_Flush [simp]: "all_due m (eng_Flush e) = all_due m e"
  by (simp add: all_due_def eng_Flush_def scan_range_def clamp_allocated_def)

section \<open>What the writer received\<close>

lemma scan_history_append:
  "scan_history mem (ts @ us) e = scan_history mem ts e @ scan_history mem us (scan_all mem ts e)"
  by (induction ts arbitrary: e) auto

lemma scan_all_append: "scan_all mem (ts @ us) e = scan_all mem us (scan_all mem ts e)"
  by (induction ts arbitrary: e) auto

lemma same_counters_all: "same_counters e e' \<Longrightarrow> same_counters (scan_all mem ts e) (scan_all mem ts e')"
  using same_counters_scan by (induction ts arbitrary: e e') auto

lemma same_counters_trans: "same_counters a b \<Longrightarrow> same_counters b c \<Longrightarrow> same_counters a c"
  by (simp add: same_counters_def)

text \<open>From \<open>e\<close> to \<open>e'\<close> the engine scanned at the times \<open>ts\<close>, and unless a write failed everything these
  scans found is in the stream.\<close>

definition logged :: "shm_run \<Rightarrow> nat list \<Rightarrow> TracerEngine \<Rightarrow> TracerEngine \<Rightarrow> bool" where
  "logged mem ts e e' \<longleftrightarrow>
     same_counters e' (scan_all mem ts e) \<and> (sw_ok (eng_writer e) \<longrightarrow> sw_ok (eng_writer e')) \<and>
     (\<not> sw_failed (eng_writer e') \<longrightarrow>
        \<not> sw_failed (eng_writer e) \<and>
        sw_stream (eng_writer e') =
          sw_stream (eng_writer e) @ concat (map (\<lambda>r. event_line (snd r)) (scan_history mem ts e)))"

lemma logged_trans: "logged mem ts e e' \<Longrightarrow> logged mem us e' e'' \<Longrightarrow> logged mem (ts @ us) e e''"
  unfolding logged_def scan_all_append scan_history_append
  using same_counters_trans same_counters_all same_counters_history [of e' "scan_all mem ts e"]
  by fastforce

lemma logged_scan: "doScan mem t e = (t', e', n) \<Longrightarrow> logged mem [t] e e'"
proof -
  assume "doScan mem t e = (t', e', n)"
  then have e': "e' = scanned mem t e" by (simp add: scanned_def)
  have w: "eng_writer e' = write_events (eng_writer e) (map snd (doScan_events mem t e))"
    by (simp add: e' scanned_def doScan_eq)
  show ?thesis
    using write_events_stream [of "eng_writer e" "map snd (doScan_events mem t e)"]
      write_events_stuck [of "eng_writer e" "map snd (doScan_events mem t e)"]
    by (auto simp: logged_def w e' [symmetric] comp_def intro: write_events_ok)
qed

lemma scan_all_logged: "logged mem ts e (scan_all mem ts e)"
proof (induction ts arbitrary: e)
  case (Cons t ts)
  have "logged mem [t] e (scanned mem t e)" by (rule logged_scan [of mem t e _ _ "snd (snd (doScan mem t e))"]) (simp add: scanned_def prod_eq_iff)
  from logged_trans [OF this Cons.IH] show ?case by simp
qed (simp add: logged_def)

text \<open>What scans that wrote without error have put into the log.\<close>

lemma scan_all_stream:
  "\<not> sw_failed (eng_writer (scan_all mem ts e)) \<Longrightarrow>
   sw_stream (eng_writer (scan_all mem ts e)) =
     sw_stream (eng_writer e) @ concat (map (\<lambda>r. event_line (snd r)) (scan_history mem ts e))"
  using scan_all_logged [of mem ts e] by (simp add: logged_def)

lemma logged_Flush: "logged mem [] e (eng_Flush e)"
  using sw_Flush_stuck [of "eng_writer e"]
  by (auto simp: logged_def same_counters_def eng_Flush_def sw_Flush_stream intro: sw_Flush_ok)

section \<open>Every slot is read once\<close>

lemma slot_ticks_some: "slot_read mem t i lastSeen = Some e \<Longrightarrow> slot_ticks mem t i lastSeen = 7"
  by (auto simp: slot_ticks_def slot_read_def Let_def split: if_splits)

lemma slot_ticks_pos: "0 < slot_ticks mem t i lastSeen"
  by (simp add: slot_ticks_def)

lemma loop_reads:
  assumes "k \<in> set is" "distinct is"
  obtains u where "t \<le> u" "u + slot_ticks mem u k (lastSeenSeqs ! k) \<le> loop_time mem t is lastSeenSeqs"
    "\<And>e. slot_read mem u k (lastSeenSeqs ! k) = Some e \<Longrightarrow> (k, e) \<in> set (loop_events mem t is lastSeenSeqs)"
  using assms
proof (induction "is" arbitrary: t lastSeenSeqs thesis)
  case (Cons i "is")
  let ?r = "slot_read mem t i (lastSeenSeqs ! i)"
  let ?t = "t + slot_ticks mem t i (lastSeenSeqs ! i)"
  let ?l = "lastSeenSeqs[i := seen_after (lastSeenSeqs ! i) ?r]"
  show ?case
  proof (cases "k = i")
    case True
    with Cons.prems(1) [of t] loop_time_mono [of ?t mem "is" ?l] show ?thesis by (auto simp: Let_def)
  next
    case False
    then have k: "k \<in> set is" "?l ! k = lastSeenSeqs ! k" using Cons.prems(2) by auto
    obtain u where "?t \<le> u" "u + slot_ticks mem u k (lastSeenSeqs ! k) \<le> loop_time mem ?t is ?l"
      "\<And>e. slot_read mem u k (lastSeenSeqs ! k) = Some e \<Longrightarrow> (k, e) \<in> set (loop_events mem ?t is ?l)"
      using Cons.IH [of ?t ?l, OF _ k(1)] Cons.prems(3) unfolding k(2) by auto
    with Cons.prems(1) [of u] show ?thesis by (auto simp: Let_def)
  qed
qed simp

lemma scan_reads:
  assumes "i \<in> set is" "distinct is" "j < 8"
  obtains u where "t \<le> u"
    "u + slot_ticks (\<lambda>u. sh_stations (mem u) ! i) u j (lastSeen ! i ! j) \<le> scan_time mem t is lastSeen"
    "\<And>e. slot_read (\<lambda>u. sh_stations (mem u) ! i) u j (lastSeen ! i ! j) = Some e \<Longrightarrow>
       ((i, j), e) \<in> set (scan_events mem t is lastSeen)"
  using assms(1,2)
proof (induction "is" arbitrary: t lastSeen thesis)
  case (Cons k "is")
  let ?st = "\<lambda>u. sh_stations (mem u) ! k"
  let ?t = "loop_time ?st t [0..<8] (lastSeen ! k)"
  let ?l = "lastSeen[k := loop_seen ?st t [0..<8] (lastSeen ! k)]"
  show ?case
  proof (cases "i = k")
    case True
    obtain u where u: "t \<le> u" "u + slot_ticks ?st u j (lastSeen ! k ! j) \<le> ?t"
      "\<And>e. slot_read ?st u j (lastSeen ! k ! j) = Some e \<Longrightarrow> (j, e) \<in> set (harvest_events ?st t (lastSeen ! k))"
      using loop_reads [of j "[0..<8]" t ?st "lastSeen ! k"] assms(3) by auto
    have "?t \<le> scan_time mem ?t is ?l" by (rule scan_time_mono)
    with u Cons.prems(1) [of u] True show ?thesis by (force simp: Let_def)
  next
    case False
    then have i: "i \<in> set is" "?l ! i = lastSeen ! i" using Cons.prems(2) by auto
    obtain u where "?t \<le> u"
      "u + slot_ticks (\<lambda>u. sh_stations (mem u) ! i) u j (lastSeen ! i ! j) \<le> scan_time mem ?t is ?l"
      "\<And>e. slot_read (\<lambda>u. sh_stations (mem u) ! i) u j (lastSeen ! i ! j) = Some e \<Longrightarrow>
         ((i, j), e) \<in> set (scan_events mem ?t is ?l)"
      using Cons.IH [of ?t ?l, OF _ i(1)] Cons.prems(3) unfolding i(2) by auto
    with Cons.prems(1) [of u] loop_time_mono [of t ?st "[0..<8]" "lastSeen ! k"] show ?thesis
      by (auto simp: Let_def)
  qed
qed simp

section \<open>A slot that stays while the rest of the memory changes\<close>

definition slot_stays :: "shm_run \<Rightarrow> nat \<Rightarrow> nat \<Rightarrow> nat \<Rightarrow> nat \<Rightarrow> u64 \<Rightarrow> Epoch \<Rightarrow> bool" where
  "slot_stays mem a b i j p s \<longleftrightarrow>
     (\<forall>u \<in> {a..<b}. Slots (sh_stations (mem u) ! i) ! j = s \<and> ProbeID (Header (sh_stations (mem u) ! i)) = p)"

definition epoch_record :: "u64 \<Rightarrow> Epoch \<Rightarrow> slot_event" where
  "epoch_record p s =
     \<lparr>ev_probe = p, ev_seq = Seq s, ev_tid = TID s, ev_addr = Addr s, ev_active = IsActive s, ev_ts = Timestamp s\<rparr>"

lemma stable_read:
  assumes "slot_stays mem u b i j p s" "lastSeen < Seq s" "even (unat (Seq s))"
    "u + slot_ticks (\<lambda>u. sh_stations (mem u) ! i) u j lastSeen \<le> b"
  shows "slot_read (\<lambda>u. sh_stations (mem u) ! i) u j lastSeen = Some (epoch_record p s)"
proof -
  let ?st = "\<lambda>u. sh_stations (mem u) ! i"
  have at: "Slots (?st v) ! j = s" "ProbeID (Header (?st v)) = p" if "u \<le> v" "v < b" for v
    using assms(1) that by (auto simp: slot_stays_def)
  have "u < b" using assms(4) slot_ticks_pos [of ?st u j lastSeen] by simp
  then have u0: "Slots (?st u) ! j = s" by (simp add: at)
  have six: "6 \<le> slot_ticks ?st u j lastSeen" using assms(2,3) u0 by (simp add: slot_ticks_def not_le)
  then have "Seq (Slots (?st (u + 5)) ! j) = Seq s" using at(1) [of "u + 5"] assms(4) by simp
  then have "slot_read ?st u j lastSeen \<noteq> None" using assms(2,3) u0 by (simp add: slot_read_def)
  then have "u + 7 \<le> b" using slot_ticks_some assms(4) by fastforce
  then show ?thesis using assms(2,3) by (simp add: slot_read_def epoch_record_def at)
qed

lemma scan_finds_stable:
  assumes "slot_stays mem t (scan_time mem t is lastSeen) i j p s" "i \<in> set is" "distinct is" "j < 8"
    "lastSeen ! i ! j < Seq s" "even (unat (Seq s))"
  shows "((i, j), epoch_record p s) \<in> set (scan_events mem t is lastSeen)"
proof -
  obtain u where u: "t \<le> u"
    "u + slot_ticks (\<lambda>u. sh_stations (mem u) ! i) u j (lastSeen ! i ! j) \<le> scan_time mem t is lastSeen"
    "\<And>e. slot_read (\<lambda>u. sh_stations (mem u) ! i) u j (lastSeen ! i ! j) = Some e \<Longrightarrow>
       ((i, j), e) \<in> set (scan_events mem t is lastSeen)"
    using scan_reads [OF assms(2-4), of t mem lastSeen] by blast
  have "slot_stays mem u (scan_time mem t is lastSeen) i j p s" using assms(1) u(1) by (simp add: slot_stays_def)
  from u(3) [OF stable_read [OF this assms(5,6) u(2)]] show ?thesis .
qed

lemma doScan_finds_stable:
  assumes "wf_engine e" "slot_stays mem (t + 1) (fst (doScan mem t e)) i j p s"
    "i < min (unat (eng_maxStations e)) (unat (AllocatedCount (sh_header (mem t))))" "j < 8"
    "eng_lastSeen e ! i ! j < Seq s" "even (unat (Seq s))"
  shows "((i, j), epoch_record p s) \<in> set (doScan_events mem t e) \<and>
         eng_lastSeen (scanned mem t e) ! i ! j = Seq s"
proof -
  have "i \<in> set (scan_range mem t e)" using assms(3) by (simp add: scan_range_def clamp_allocated_def word_less_nat_alt)
  then have found: "((i, j), epoch_record p s) \<in> set (doScan_events mem t e)"
    unfolding doScan_events_def using assms(2-6) by (intro scan_finds_stable) (auto simp: doScan_eq)
  with doScan_events_in [OF assms(1) found] show ?thesis by (simp add: epoch_record_def)
qed

text \<open>After a scan the counter has caught up with every finished record that stayed.\<close>

lemma scanned_catches_up:
  assumes "wf_engine e" "slot_stays mem (t + 1) (fst (doScan mem t e)) i j p s"
    "i < min (unat (eng_maxStations e)) (unat (AllocatedCount (sh_header (mem t))))" "j < 8" "even (unat (Seq s))"
  shows "Seq s \<le> eng_lastSeen (scanned mem t e) ! i ! j"
proof (cases "eng_lastSeen e ! i ! j < Seq s")
  case True
  with doScan_finds_stable [OF assms(1-4)] assms(5) show ?thesis by simp
next
  case False
  with scanned_mono [OF assms(1), of i j mem t] assms(3,4) show ?thesis by simp
qed

section \<open>Properties\<close>

text \<open>A station with one event in slot 3, a memory with one station and more probes than stations, and
  an engine, to apply the properties to.\<close>

definition demo_station :: "u64 \<Rightarrow> StationData" where
  "demo_station n = zero_station\<lparr>Slots := (Slots zero_station)[3 := zero_epoch\<lparr>Seq := n, TID := 7\<rparr>]\<rparr>"

definition demo_shm :: "u64 \<Rightarrow> shm" where
  "demo_shm n =
     \<lparr>sh_header = \<lparr>MagicNum = 0x434F524F54524352, Version = 1, MaxStations = 1, AllocatedCount = 5,
                   TracerSleeping = 0\<rparr>,
      sh_stations = [demo_station n]\<rparr>"

definition demo_file :: os_file where
  "demo_file = \<lparr>file_bytes = ''{}'' @ [newline], file_room = 1000, file_open = True\<rparr>"

definition demo_engine :: TracerEngine where
  "demo_engine =
     \<lparr>eng_mmap = [], eng_writer = \<lparr>sw_writer = NewWriterSize demo_file 4096, sw_line = []\<rparr>,
      eng_maxStations = 1, eng_lastSeen = [replicate 8 0],
      eng_listening = True, eng_mapped = True, eng_shm_open = True\<rparr>"

definition demo_run :: shm_run where
  "demo_run t = demo_shm (if t < 40 then 2 else 4)"

lemma wf_demo [simp]: "wf_engine demo_engine"
  by (simp add: wf_engine_def demo_engine_def sw_ok_def bw_ok_def NewWriterSize_def)

text \<open>C6: Over any number of scans, whatever the traced program writes meanwhile, the log grows by exactly one line per
  record found, unless a write fails, and the sequence numbers found for one slot of one station strictly increase: no
  record is ever logged twice and none out of order. Every logged number is even, and every record comes from
  a slot of one of the \<^verbatim>\<open>maxStations\<close> stations.\<close>

theorem scans_log_once:
  assumes "wf_engine e" "\<not> sw_failed (eng_writer (scan_all mem ts e))"
  shows "sw_stream (eng_writer (scan_all mem ts e)) =
           sw_stream (eng_writer e) @ concat (map (\<lambda>r. event_line (snd r)) (scan_history mem ts e)) \<and>
         sorted_wrt (<) (slot_log i j (scan_history mem ts e)) \<and>
         (\<forall>r \<in> set (scan_history mem ts e).
            fst (fst r) < unat (eng_maxStations e) \<and> snd (fst r) < 8 \<and> even (unat (ev_seq (snd r))))"
  using scan_all_stream [OF assms(2)] slot_log_increasing [OF assms(1)] scan_history_above [OF assms(1)] by fastforce

theorem scans_log_once_witness:
  "let e = scan_all demo_run [0, 40, 80] demo_engine; hist = scan_history demo_run [0, 40, 80] demo_engine in
   wf_engine demo_engine \<and> \<not> sw_failed (eng_writer e) \<and> slot_log 0 3 hist = [2, 4] \<and>
   sw_stream (eng_writer e) = ''{}'' @ [newline] @ concat (map (\<lambda>r. event_line (snd r)) hist)"
proof -
  have "slot_log 0 3 (scan_history demo_run [0, 40, 80] demo_engine) = [2, 4]" by code_simp
  moreover have ok: "\<not> sw_failed (eng_writer (scan_all demo_run [0, 40, 80] demo_engine))" by code_simp
  moreover have "sw_stream (eng_writer demo_engine) = ''{}'' @ [newline]"
    by (simp add: sw_stream_def osf.stream_def demo_engine_def demo_file_def NewWriterSize_def)
  ultimately show ?thesis using scans_log_once [OF wf_demo ok] by (simp add: Let_def)
qed

text \<open>C17: One \<^verbatim>\<open>doScan\<close> of a memory that does not change meanwhile logs exactly the due slots (sequence
  number even and above \<^verbatim>\<open>lastSeen\<close>) of the allocated stations, in station and slot order, with the values in
  memory, returns their number, appends their lines to the log stream unless a write fails, and
  a scan after it finds nothing. An allocation count above \<^verbatim>\<open>maxStations\<close> is cut to it.\<close>

theorem doScan_logs_due:
  assumes "wf_engine e" "doScan (\<lambda>_. m) t e = (t', e', n)"
  shows "n = length (all_due m e) \<and>
         set (all_due m e) = {(i, j). i < min (unat (eng_maxStations e)) (unat (AllocatedCount (sh_header m))) \<and>
            j < 8 \<and> eng_lastSeen e ! i ! j < Seq (Slots (sh_stations m ! i) ! j) \<and>
            even (unat (Seq (Slots (sh_stations m ! i) ! j)))} \<and>
         (\<not> sw_failed (eng_writer e') \<longrightarrow>
            sw_stream (eng_writer e') = sw_stream (eng_writer e) @
              concat (map (\<lambda>(i, j). event_line (slot_record (sh_stations m ! i) j)) (all_due m e))) \<and>
         wf_engine e' \<and> (\<forall>u. snd (snd (doScan (\<lambda>_. m) u e')) = 0)"
proof -
  have e': "e' = scanned (\<lambda>_. m) t e" using assms(2) by (simp add: scanned_def)
  have n: "n = length (doScan_events (\<lambda>_. m) t e)" using assms(2) by (simp add: doScan_eq)
  have wf': "wf_engine e'" using wf_doScan [OF assms] by simp
  have range: "unat (clamp_allocated e (AllocatedCount (sh_header m))) =
      min (unat (eng_maxStations e)) (unat (AllocatedCount (sh_header m)))"
    by (simp add: clamp_allocated_def word_less_nat_alt)
  have "set (all_due m e) = {(i, j). i < min (unat (eng_maxStations e)) (unat (AllocatedCount (sh_header m))) \<and>
      j < 8 \<and> slot_due (sh_stations m ! i) (eng_lastSeen e ! i) j}"
    by (auto simp: all_due_def due_slots_set scan_range_def range)
  moreover have "snd (snd (doScan (\<lambda>_. m) u e')) = 0" for u
    using doScan_quiet [OF wf', of m u] doScan_quiet [OF assms(1), of m t] by (simp add: doScan_eq e')
  moreover have "\<not> sw_failed (eng_writer e') \<Longrightarrow> sw_stream (eng_writer e') = sw_stream (eng_writer e) @
      concat (map (\<lambda>(i, j). event_line (slot_record (sh_stations m ! i) j)) (all_due m e))"
    using doScan_quiet [OF assms(1), of m t] logged_scan [OF assms(2)]
    by (simp add: logged_def comp_def case_prod_unfold)
  ultimately show ?thesis
    using n wf' doScan_quiet [OF assms(1), of m t] by (simp add: slot_due_def)
qed

theorem doScan_logs_due_witness:
  "wf_engine demo_engine \<and> doScan (\<lambda>_. demo_shm 2) 0 demo_engine = (15, scanned (\<lambda>_. demo_shm 2) 0 demo_engine, 1) \<and>
   all_due (demo_shm 2) demo_engine = [(0, 3)] \<and>
   (\<forall>u. snd (snd (doScan (\<lambda>_. demo_shm 2) u (scanned (\<lambda>_. demo_shm 2) 0 demo_engine))) = 0)"
proof -
  have "fst (doScan (\<lambda>_. demo_shm 2) 0 demo_engine) = 15" "snd (snd (doScan (\<lambda>_. demo_shm 2) 0 demo_engine)) = 1"
    by code_simp+
  then have s: "doScan (\<lambda>_. demo_shm 2) 0 demo_engine = (15, scanned (\<lambda>_. demo_shm 2) 0 demo_engine, 1)"
    by (simp add: scanned_def prod_eq_iff)
  have "all_due (demo_shm 2) demo_engine = [(0, 3)]" by code_simp
  with s doScan_logs_due [OF wf_demo s] show ?thesis by simp
qed

text \<open>C8: A finished record that stays in its slot for the whole of one \<^verbatim>\<open>doScan\<close> is logged by it, whatever
  the traced program writes meanwhile to the other slots, stations and the header: the scan returns
  a positive count, so \<^verbatim>\<open>hotHarvestLoop\<close> does not go to sleep, \<^verbatim>\<open>lastSeen\<close> follows, and unless a
  write failed the record's line is among what the scan appended to the log stream.\<close>

theorem busy_scan_finds_stable:
  assumes "wf_engine e" "doScan mem t e = (t', e', n)"
    "i < min (unat (eng_maxStations e)) (unat (AllocatedCount (sh_header (mem t))))" "j < 8"
    "slot_stays mem (t + 1) t' i j p s" "eng_lastSeen e ! i ! j < Seq s" "even (unat (Seq s))"
  shows "0 < n \<and> eng_lastSeen e' ! i ! j = Seq s \<and>
         (\<not> sw_failed (eng_writer e') \<longrightarrow>
            (\<exists>a b. sw_stream (eng_writer e') = sw_stream (eng_writer e) @ a @ event_line (epoch_record p s) @ b))"
proof -
  have e': "e' = scanned mem t e" and n: "n = length (doScan_events mem t e)"
    using assms(2) by (simp_all add: scanned_def doScan_eq)
  have found: "((i, j), epoch_record p s) \<in> set (doScan_events mem t e)" "eng_lastSeen e' ! i ! j = Seq s"
    using doScan_finds_stable [of e mem t i j p s] assms by (simp_all add: e')
  moreover have "\<exists>a b. sw_stream (eng_writer e') = sw_stream (eng_writer e) @ a @ event_line (epoch_record p s) @ b"
    if "\<not> sw_failed (eng_writer e')"
    using in_concat_map [OF found(1), of "\<lambda>r. event_line (snd r)"] logged_scan [OF assms(2)] that
    by (auto simp: logged_def)
  ultimately show ?thesis using n by (auto intro: length_pos_if_in_set)
qed

text \<open>Slot 3 stays while slot 5 changes at every tick.\<close>

definition busy_run :: shm_run where
  "busy_run t =
     \<lparr>sh_header = sh_header (demo_shm 2),
      sh_stations = [(demo_station 2)\<lparr>Slots := (Slots (demo_station 2))[5 := zero_epoch\<lparr>Seq := of_nat t\<rparr>]\<rparr>]\<rparr>"

theorem busy_scan_finds_stable_witness:
  "slot_stays busy_run 1 (fst (doScan busy_run 0 demo_engine)) 0 3 0 (zero_epoch\<lparr>Seq := 2, TID := 7\<rparr>) \<and>
   0 < snd (snd (doScan busy_run 0 demo_engine)) \<and>
   eng_lastSeen (scanned busy_run 0 demo_engine) ! 0 ! 3 = 2 \<and>
   (\<exists>a b. sw_stream (eng_writer (scanned busy_run 0 demo_engine)) =
      sw_stream (eng_writer demo_engine) @ a @ event_line (epoch_record 0 (zero_epoch\<lparr>Seq := 2, TID := 7\<rparr>)) @ b)"
proof -
  obtain t' e' n where s: "doScan busy_run 0 demo_engine = (t', e', n)" by (cases "doScan busy_run 0 demo_engine")
  have stays: "slot_stays busy_run a b 0 3 0 (zero_epoch\<lparr>Seq := 2, TID := 7\<rparr>)" for a b
    by (simp add: slot_stays_def busy_run_def demo_station_def zero_station_def)
  have ok: "\<not> sw_failed (eng_writer (scanned busy_run 0 demo_engine))" by code_simp
  have "0 < n \<and> eng_lastSeen e' ! 0 ! 3 = Seq (zero_epoch\<lparr>Seq := 2, TID := 7\<rparr>) \<and>
      (\<not> sw_failed (eng_writer e') \<longrightarrow>
        (\<exists>a b. sw_stream (eng_writer e') = sw_stream (eng_writer demo_engine) @ a @
           event_line (epoch_record 0 (zero_epoch\<lparr>Seq := 2, TID := 7\<rparr>)) @ b))"
    by (rule busy_scan_finds_stable [OF wf_demo s _ _ stays])
       (simp_all add: demo_engine_def busy_run_def demo_shm_def)
  with s ok stays show ?thesis by (simp add: scanned_def)
qed

end
