(* ===== verification/Engine_Loop.thy ===== *)
theory Engine_Loop
  imports Engine_Scan
begin

text \<open>
  What the hot loop does: it returns once the traced program is quiet and disconnects, and by then
  every finished write that was still in memory is in the log file.
\<close>

section \<open>The hot loop\<close>

lemma logged_last_scan: "last_scan mem t e = (t', e') \<Longrightarrow> logged mem [t] e e'"
  using logged_scan logged_trans [OF _ logged_Flush]
  by (fastforce simp: last_scan_def split: prod.splits)

lemma last_scan_file:
  "last_scan mem t e = (t', e') \<Longrightarrow> \<not> sw_failed (eng_writer e') \<Longrightarrow>
   sw_file (eng_writer e') = sw_stream (eng_writer e')"
  by (auto simp: last_scan_def eng_Flush_def sw_Flush_file sw_Flush_stream split: prod.splits)

text \<open>One round either returns after a last scan, or goes on later with everything logged.\<close>

definition disconnect :: "read_outcome \<Rightarrow> bool" where
  "disconnect r \<longleftrightarrow> r = ReadFailed \<or> r = ReadBytes 0"

lemma doScan_later: "doScan mem t e = (t', e', n) \<Longrightarrow> t < t'"
  using scan_time_mono [of "t + 1" mem "scan_range mem t e" "eng_lastSeen e"]
  by (auto simp: doScan_eq)

lemma hot_round:
  obtains (returns) ts e1 t1 t2 e2 st where
      "\<And>fuel. hotHarvestLoop (Suc fuel) mem reads t k e stores = Some (t2, k + 1, e2, st)"
      "disconnect (reads k)" "logged mem ts e e1" "last_scan mem t1 e1 = (t2, e2)" "t < t1"
  | (continues) ts e1 t1 k1 st where
      "\<And>fuel. hotHarvestLoop (Suc fuel) mem reads t k e stores = hotHarvestLoop fuel mem reads t1 k1 e1 st"
      "logged mem ts e e1" "t < t1" "k1 = k \<or> k1 = k + 1 \<and> \<not> disconnect (reads k)"
proof -
  obtain t1 e1 n1 where s1: "doScan mem t e = (t1, e1, n1)" by (cases "doScan mem t e")
  obtain t3 e3 n3 where s3: "doScan mem (t1 + 1) (eng_Flush e1) = (t3, e3, n3)"
    by (cases "doScan mem (t1 + 1) (eng_Flush e1)")
  obtain t4 e4 where s4: "last_scan mem (t3 + 1) e3 = (t4, e4)" by (cases "last_scan mem (t3 + 1) e3")
  have l1: "logged mem [t] e e1" using s1 by (rule logged_scan)
  have l3: "logged mem [t, t1 + 1] e e3"
    using logged_trans [OF logged_trans [OF l1 logged_Flush] logged_scan [OF s3]] by simp
  have late: "t < t1" "t < t3" using doScan_later [OF s1] doScan_later [OF s3] by simp_all
  consider "n1 > 0" | "n1 = 0" "n3 > 0" | "n1 = 0" "n3 = 0" "disconnect (reads k)"
    | "n1 = 0" "n3 = 0" "\<not> disconnect (reads k)" by blast
  then show thesis
  proof cases
    case 1
    with continues [of t1 k e1 stores, OF _ l1] late s1 show thesis by simp
  next
    case 2
    with continues [of "t3 + 1" k e3 "stores @ [(t1, 1), (t3, 0)]", OF _ l3] late s1 s3 show thesis by simp
  next
    case 3
    with returns [of t4 e4 "stores @ [(t1, 1)]", OF _ _ l3 s4] late s1 s3 s4 show thesis
      by (auto simp: disconnect_def)
  next
    case 4
    show thesis
    proof (cases "reads k")
      case ReadTimeout
      with 4 continues [of "t3 + 1" "k + 1" e3 "stores @ [(t1, 1)]", OF _ l3] late s1 s3 show thesis
        by (simp add: disconnect_def)
    next
      case (ReadBytes n)
      with 4 continues [of "t3 + 2" "k + 1" e3 "stores @ [(t1, 1), (t3 + 1, 0)]", OF _ l3] late s1 s3
      show thesis by (simp add: disconnect_def)
    qed (use 4 in \<open>simp add: disconnect_def\<close>)
  qed
qed

lemma hot_ends:
  "hotHarvestLoop fuel mem reads t k e stores = Some (t', k', e', st) \<Longrightarrow>
   \<exists>ts t1 e1. logged mem ts e e1 \<and> last_scan mem t1 e1 = (t', e') \<and> t < t1"
proof (induction fuel arbitrary: t k e stores)
  case (Suc fuel)
  show ?case
  proof (cases rule: hot_round [of mem reads t k e stores])
    case (returns ts e1 t1 t2 e2 st2)
    with Suc.prems show ?thesis by auto
  next
    case (continues ts e1 t1 k1 st1)
    with Suc.prems have "hotHarvestLoop fuel mem reads t1 k1 e1 st1 = Some (t', k', e', st)" by metis
    from Suc.IH [OF this] continues(2,3) logged_trans show ?thesis by (metis less_trans)
  qed
qed simp

lemma hot_mono:
  "hotHarvestLoop fuel mem reads t k e stores = Some r \<Longrightarrow>
   hotHarvestLoop (fuel + d) mem reads t k e stores = Some r"
proof (induction fuel arbitrary: t k e stores)
  case (Suc fuel)
  show ?case
  proof (cases rule: hot_round [of mem reads t k e stores])
    case returns
    with Suc.prems show ?thesis by simp
  next
    case continues
    with Suc show ?thesis by simp
  qed
qed simp

lemma logged_max: "logged mem ts e e' \<Longrightarrow> eng_maxStations e' = eng_maxStations e"
proof -
  have "eng_maxStations (scan_all mem ts e) = eng_maxStations e" for e by (induction ts arbitrary: e) simp_all
  then show "logged mem ts e e' \<Longrightarrow> ?thesis" by (simp add: logged_def same_counters_def)
qed

lemma logged_wf: "logged mem ts e e' \<Longrightarrow> wf_engine e \<Longrightarrow> wf_engine e'"
proof -
  have "wf_engine (scan_all mem ts e)" if "wf_engine e" for e
    using that by (induction ts arbitrary: e) (auto intro: wf_scanned)
  then show "logged mem ts e e' \<Longrightarrow> wf_engine e \<Longrightarrow> ?thesis"
    by (auto simp: logged_def same_counters_def wf_engine_def)
qed

section \<open>The loop returns\<close>

text \<open>From time \<open>t\<close> on the memory stays \<open>m\<close>.\<close>

definition quiet_from :: "shm_run \<Rightarrow> nat \<Rightarrow> shm \<Rightarrow> bool" where
  "quiet_from mem t m \<longleftrightarrow> (\<forall>u \<ge> t. mem u = m)"

lemma quiet_from_later: "quiet_from mem t m \<Longrightarrow> t \<le> u \<Longrightarrow> quiet_from mem u m"
  by (simp add: quiet_from_def)

declare hotHarvestLoop.simps(2) [simp del]

text \<open>A round on quiet memory with nothing due goes to sleep and reads the connection.\<close>

lemma quiet_scan:
  assumes "quiet_from mem t m" "wf_engine e"
  shows "\<exists>t'. t < t' \<and> doScan mem t e = (t', scanned mem t e, length (all_due m e)) \<and>
         all_due m (scanned mem t e) = []"
proof -
  have eq: "doScan mem t e = doScan (\<lambda>_. m) t e" using assms(1) by (intro doScan_cong) (simp add: quiet_from_def)
  obtain t' e' n where s: "doScan mem t e = (t', e', n)" by (cases "doScan mem t e")
  have "e' = scanned mem t e" "n = length (doScan_events (\<lambda>_. m) t e)"
    using s eq by (simp_all add: scanned_def doScan_eq)
  with doScan_quiet [OF assms(2), of m t] doScan_later [OF s] s eq show ?thesis
    by (auto simp: scanned_def)
qed

lemma quiet_sleep:
  assumes quiet: "quiet_from mem t m" and wf: "wf_engine e" and none: "all_due m e = []"
  obtains t1 e1 stores' where "t < t1" "wf_engine e1" "all_due m e1 = []"
    "\<And>fuel. disconnect (reads k) \<Longrightarrow> \<exists>r. hotHarvestLoop (Suc fuel) mem reads t k e stores = Some r"
    "\<And>fuel. \<not> disconnect (reads k) \<Longrightarrow>
       hotHarvestLoop (Suc fuel) mem reads t k e stores = hotHarvestLoop fuel mem reads t1 (k + 1) e1 stores'"
proof -
  obtain ta where a: "t < ta" "doScan mem t e = (ta, scanned mem t e, 0)" "all_due m (scanned mem t e) = []"
    using quiet_scan [OF quiet wf] none by auto
  let ?f = "eng_Flush (scanned mem t e)"
  have wf': "wf_engine ?f" "all_due m ?f = []" using wf a by (simp_all add: wf_eng_Flush wf_scanned)
  obtain tb where b: "ta + 1 < tb" "doScan mem (ta + 1) ?f = (tb, scanned mem (ta + 1) ?f, 0)"
      "all_due m (scanned mem (ta + 1) ?f) = []"
    using quiet_scan [OF quiet_from_later [OF quiet, of "ta + 1"] wf'(1)] a(1) wf'(2) by auto
  let ?e = "scanned mem (ta + 1) ?f"
  let ?t1 = "case reads k of ReadTimeout \<Rightarrow> tb + 1 | _ \<Rightarrow> tb + 2"
  let ?st = "case reads k of ReadTimeout \<Rightarrow> stores @ [(ta, 1)] | _ \<Rightarrow> stores @ [(ta, 1), (tb + 1, 0)]"
  show thesis
  proof (rule that [of ?t1 ?e ?st])
    show "t < ?t1" using a(1) b(1) by (cases "reads k") auto
    show "wf_engine ?e" using wf'(1) by (rule wf_scanned)
    show "all_due m ?e = []" by (rule b(3))
    show "\<exists>r. hotHarvestLoop (Suc fuel) mem reads t k e stores = Some r" if "disconnect (reads k)" for fuel
      using that a(2) b(2) by (auto simp: hotHarvestLoop.simps(2) disconnect_def split: prod.splits)
    show "hotHarvestLoop (Suc fuel) mem reads t k e stores = hotHarvestLoop fuel mem reads ?t1 (k + 1) ?e ?st"
      if "\<not> disconnect (reads k)" for fuel
      using that a(2) b(2) by (cases "reads k") (auto simp: hotHarvestLoop.simps(2) disconnect_def)
  qed
qed

lemma hot_returns_idle:
  assumes "quiet_from mem t m" "wf_engine e" "all_due m e = []"
    "disconnect (reads K)" "k \<le> K"
  shows "\<exists>r. hotHarvestLoop (K - k + 1) mem reads t k e stores = Some r"
  using assms
proof (induction "K - k" arbitrary: t k e stores rule: less_induct)
  case less
  obtain t1 e1 st where r: "t < t1" "wf_engine e1" "all_due m e1 = []"
    "\<And>fuel. disconnect (reads k) \<Longrightarrow> \<exists>r. hotHarvestLoop (Suc fuel) mem reads t k e stores = Some r"
    "\<And>fuel. \<not> disconnect (reads k) \<Longrightarrow>
       hotHarvestLoop (Suc fuel) mem reads t k e stores = hotHarvestLoop fuel mem reads t1 (k + 1) e1 st"
    using quiet_sleep [OF less.prems(1-3), where reads = reads and k = k and stores = stores] by blast
  show ?case
  proof (cases "disconnect (reads k)")
    case True
    then show ?thesis using r(4) by simp
  next
    case False
    then have "k < K" using less.prems(4,5) by (metis le_neq_implies_less)
    then have "\<exists>r. hotHarvestLoop (K - (k + 1) + 1) mem reads t1 (k + 1) e1 st = Some r"
      using less.prems r(1,2,3) quiet_from_later [of mem t m t1] by (intro less.hyps) auto
    with r(5) [OF False, of "K - k"] \<open>k < K\<close> show ?thesis by (simp add: Suc_diff_Suc)
  qed
qed

lemma hot_returns_quiet:
  assumes "quiet_from mem t m" "wf_engine e" "disconnect (reads K)" "k \<le> K"
  shows "\<exists>r. hotHarvestLoop (K - k + 2) mem reads t k e stores = Some r"
proof (cases "all_due m e = []")
  case True
  obtain r where "hotHarvestLoop (K - k + 1) mem reads t k e stores = Some r"
    using hot_returns_idle [where reads = reads and K = K and k = k, OF assms(1,2) True assms(3,4)] by blast
  from hot_mono [OF this, of 1] show ?thesis by (intro exI [of _ r]) simp
next
  case False
  obtain t' where s: "t < t'" "doScan mem t e = (t', scanned mem t e, length (all_due m e))"
    "all_due m (scanned mem t e) = []" using quiet_scan [OF assms(1,2)] by blast
  have "\<exists>r. hotHarvestLoop (K - k + 1) mem reads t' k (scanned mem t e) stores = Some r"
    using hot_returns_idle [where reads = reads and K = K and k = k, OF quiet_from_later [OF assms(1)] wf_scanned [OF assms(2)] s(3) assms(3,4), of t'] s(1)
    by simp
  with False s(2) show ?thesis by (simp add: hotHarvestLoop.simps(2))
qed

text \<open>Enough fuel: one unit per tick until the program is quiet, one per read until the connection
  ends, and two more.\<close>

lemma hot_returns:
  assumes "quiet_from mem T m" "wf_engine e" "disconnect (reads K)" "k \<le> K"
  shows "\<exists>r. hotHarvestLoop (T - t + (K - k) + 2) mem reads t k e stores = Some r"
  using assms(2,4)
proof (induction "T - t" arbitrary: t k e stores rule: less_induct)
  case less
  show ?case
  proof (cases "T \<le> t")
    case True
    with hot_returns_quiet [where reads = reads and K = K and k = k, OF quiet_from_later [OF assms(1) True] less.prems(1) assms(3) less.prems(2)]
    show ?thesis by simp
  next
    case False
    show ?thesis
    proof (cases rule: hot_round [of mem reads t k e stores])
      case returns
      then show ?thesis by simp
    next
      case (continues ts e1 t1 k1 st)
      have k1: "k1 \<le> K" using continues(4) assms(3) less.prems(2) by (metis Suc_eq_plus1 Suc_leI le_neq_implies_less)
      have "T - t1 < T - t" using continues(3) False by simp
      from less.hyps [OF this logged_wf [OF continues(2) less.prems(1)] k1]
      obtain r where "hotHarvestLoop (T - t1 + (K - k1) + 2) mem reads t1 k1 e1 st = Some r" by blast
      note found = this
      have "T - t1 + (K - k1) + 2 \<le> T - t + (K - k) + 1" using continues(3,4) False k1 by auto
      then obtain d where "T - t + (K - k) + 1 = T - t1 + (K - k1) + 2 + d" by (metis le_add_diff_inverse)
      with continues(1) [of "T - t + (K - k) + 1"] hot_mono [OF found, of d] show ?thesis
        by (intro exI [of _ r]) simp
    qed
  qed
qed

section \<open>Room on the disk\<close>

definition sw_fits :: "StationWriter \<Rightarrow> nat \<Rightarrow> bool" where
  "sw_fits sw k \<longleftrightarrow> osf.fits (sw_writer sw) k"

lemma sw_fits_mono: "sw_fits sw k \<Longrightarrow> j \<le> k \<Longrightarrow> sw_fits sw j"
  unfolding sw_fits_def by (rule osf.fits_mono)

lemma sw_fits_ok: "sw_fits sw k \<Longrightarrow> \<not> sw_failed sw"
  by (simp add: sw_fits_def osf.fits_def)

lemma length_event_line: "length (event_line e) \<le> 160"
  using length_slot_json [of "ev_probe e" "ev_seq e" "ev_tid e" "ev_addr e" "ev_active e" "ev_ts e"]
  by (simp add: event_line_def)

lemma write_events_fits: "sw_fits sw (160 * length es + k) \<Longrightarrow> sw_fits (write_events sw es) k"
proof (induction es arbitrary: sw)
  case (Cons e es)
  have "sw_fits sw (length (event_line e) + (160 * length es + k))"
    using Cons.prems length_event_line [of e] by (auto elim: sw_fits_mono)
  then have "sw_fits (write_event sw e) (160 * length es + k)"
    using osf.write_fits by (simp add: sw_fits_def write_event_def Let_def)
  from Cons.IH [OF this] show ?case by (simp add: write_events_def)
qed (simp add: write_events_def)

lemma length_doScan_events: "length (doScan_events mem t e) \<le> 8 * unat (eng_maxStations e)"
proof -
  have "length (scan_events mem t is l) \<le> 8 * length is" for t "is" l
  proof (induction "is" arbitrary: t l)
    case (Cons i "is")
    then show ?case using length_harvest_events by (simp add: Let_def add_mono)
  qed simp
  moreover have "length (scan_range mem t e) \<le> unat (eng_maxStations e)"
    by (simp add: scan_range_def clamp_allocated_def word_less_nat_alt not_less)
  ultimately show ?thesis
    unfolding doScan_events_def by (meson le_trans mult_le_mono2)
qed

text \<open>Enough room for \<open>c\<close> more scans of every slot.\<close>

definition room_for :: "TracerEngine \<Rightarrow> nat \<Rightarrow> bool" where
  "room_for e c \<longleftrightarrow> sw_fits (eng_writer e) (160 * (8 * unat (eng_maxStations e)) * c)"

lemma room_for_scan: "doScan mem t e = (t', e', n) \<Longrightarrow> room_for e (Suc c) \<Longrightarrow> room_for e' c"
  using length_doScan_events [of mem t e]
  by (auto simp: room_for_def doScan_eq algebra_simps intro!: write_events_fits elim!: sw_fits_mono)

lemma room_for_Flush: "room_for e c \<Longrightarrow> room_for (eng_Flush e) c"
  using osf.flush_fits [of "sw_writer (eng_writer e)"]
  by (simp add: room_for_def eng_Flush_def sw_fits_def sw_Flush_def case_prod_unfold)

lemma room_for_mono: "room_for e c \<Longrightarrow> d \<le> c \<Longrightarrow> room_for e d"
  unfolding room_for_def by (erule sw_fits_mono) simp

lemma hot_room:
  "hotHarvestLoop fuel mem reads t k e stores = Some (t', k', e', st) \<Longrightarrow> room_for e (3 * fuel) \<Longrightarrow>
   \<not> sw_failed (eng_writer e')"
proof (induction fuel arbitrary: t k e stores)
  case (Suc fuel)
  obtain t1 e1 n1 where s1: "doScan mem t e = (t1, e1, n1)" by (cases "doScan mem t e")
  obtain t3 e3 n3 where s3: "doScan mem (t1 + 1) (eng_Flush e1) = (t3, e3, n3)"
    by (cases "doScan mem (t1 + 1) (eng_Flush e1)")
  obtain t4 e4 n4 where s4: "doScan mem (t3 + 1) e3 = (t4, e4, n4)" by (cases "doScan mem (t3 + 1) e3")
  have r1: "room_for e1 (Suc (Suc (3 * fuel)))" using Suc.prems(2) room_for_scan [OF s1, of "3 * fuel + 2"] by (simp add: eval_nat_numeral)
  have r3: "room_for e3 (Suc (3 * fuel))" by (rule room_for_scan [OF s3 room_for_Flush [OF r1]])
  have r4: "room_for (eng_Flush e4) (3 * fuel)" by (rule room_for_Flush [OF room_for_scan [OF s4 r3]])
  have r: "room_for e1 (3 * fuel)" "room_for e3 (3 * fuel)"
    using r1 r3 by (auto elim: room_for_mono)
  have fin: "\<not> sw_failed (eng_writer (eng_Flush e4))"
    using r4 sw_fits_ok by (auto simp: room_for_def)
  show ?case
    using Suc.prems(1) Suc.IH r fin s1 s3 s4
    by (auto simp: hotHarvestLoop.simps(2) last_scan_def Let_def split: if_splits read_outcome.splits)
qed simp

section \<open>Properties\<close>

text \<open>C9: When the traced program is quiet from time \<open>T\<close> on and the connection eventually ends (the \<open>K\<close>-th
  read fails or returns no byte), \<^verbatim>\<open>hotHarvestLoop\<close> returns: one round per tick until \<open>T\<close>, one per read until the
  end, and two more are enough. More rounds never change the result.\<close>

theorem hot_loop_returns:
  assumes "wf_engine e" "quiet_from mem T m" "disconnect (reads K)" "k \<le> K"
  shows "\<exists>r. \<forall>d. hotHarvestLoop (T - t + (K - k) + 2 + d) mem reads t k e stores = Some r"
proof -
  obtain r where r: "hotHarvestLoop (T - t + (K - k) + 2) mem reads t k e stores = Some r"
    using hot_returns [where reads = reads and K = K and k = k, OF assms(2,1,3,4)] by blast
  show ?thesis by (intro exI [of _ r] allI hot_mono [OF r])
qed

theorem hot_loop_returns_witness:
  "wf_engine demo_engine \<and> disconnect ((\<lambda>n::nat. if n < 2 then ReadTimeout else ReadFailed) 2) \<and>
   (\<exists>r. hotHarvestLoop 44 demo_run (\<lambda>n. if n < 2 then ReadTimeout else ReadFailed) 0 0 demo_engine [] = Some r)"
proof -
  let ?reads = "\<lambda>n::nat. if n < 2 then ReadTimeout else ReadFailed"
  have "quiet_from demo_run 40 (demo_shm 4)" by (simp add: quiet_from_def demo_run_def)
  moreover have d: "disconnect (?reads 2)" by (simp add: disconnect_def)
  ultimately obtain r where "\<forall>d. hotHarvestLoop (40 - 0 + (2 - 0) + 2 + d) demo_run ?reads 0 0 demo_engine [] = Some r"
    using hot_loop_returns [where reads = ?reads and K = 2 and k = 0 and T = 40 and t = 0, OF wf_demo] by blast
  then have "hotHarvestLoop (40 - 0 + (2 - 0) + 2 + 0) demo_run ?reads 0 0 demo_engine [] = Some r" by blast
  with d show ?thesis by (simp del: split_paired_Ex)
qed

text \<open>What the loop leaves in the file, and that the log has caught up with every finished record that
  stays in its slot during the last scan.\<close>

definition log_complete :: "shm_run \<Rightarrow> nat \<Rightarrow> nat \<Rightarrow> TracerEngine \<Rightarrow> scan_record list \<Rightarrow> bool" where
  "log_complete mem t1 t2 e hist \<longleftrightarrow>
     (\<forall>i j p s. slot_stays mem t1 t2 i j p s \<and> j < 8 \<and> even (unat (Seq s)) \<and> eng_lastSeen e ! i ! j < Seq s \<and>
        i < min (unat (eng_maxStations e)) (unat (AllocatedCount (sh_header (mem t1)))) \<longrightarrow>
        (\<exists>q \<in> set (slot_log i j hist). Seq s \<le> q))"

lemma last_scan_complete:
  assumes "wf_engine e" "logged mem ts e e1" "last_scan mem t1 e1 = (t', e')"
  shows "log_complete mem t1 t' e (scan_history mem (ts @ [t1]) e)"
  unfolding log_complete_def
proof (intro allI impI, elim conjE)
  fix i j p s
  assume stays: "slot_stays mem t1 t' i j p s" and j: "j < 8" and even: "even (unat (Seq s))"
    and above: "eng_lastSeen e ! i ! j < Seq s"
    and i: "i < min (unat (eng_maxStations e)) (unat (AllocatedCount (sh_header (mem t1))))"
  let ?hist = "scan_history mem (ts @ [t1]) e"
  have same: "same_counters e1 (scan_all mem ts e)" using assms(2) by (simp add: logged_def)
  then have max: "eng_maxStations e1 = eng_maxStations e"
    using logged_max [OF assms(2)] by simp
  have "slot_stays mem (t1 + 1) (fst (doScan mem t1 e1)) i j p s"
    using stays assms(3) by (auto simp: slot_stays_def last_scan_def split: prod.splits)
  then have "Seq s \<le> eng_lastSeen (scanned mem t1 e1) ! i ! j"
    using scanned_catches_up [OF logged_wf [OF assms(2,1)]] i j even max by simp
  also have "eng_lastSeen (scanned mem t1 e1) = eng_lastSeen (scan_all mem (ts @ [t1]) e)"
    using same_counters_scan [OF same, of mem t1] by (simp add: scan_all_append same_counters_def)
  also have "\<dots> ! i ! j = last (eng_lastSeen e ! i ! j # slot_log i j ?hist)"
    using i by (intro lastSeen_last assms(1)) simp
  finally show "\<exists>q \<in> set (slot_log i j ?hist). Seq s \<le> q"
    using above by (auto intro!: bexI [of _ "last (slot_log i j ?hist)"] split: if_splits)
qed

lemma hot_log:
  assumes "wf_engine e" "hotHarvestLoop fuel mem reads t k e stores = Some (t', k', e', st)" "\<not> sw_failed (eng_writer e')"
  obtains ts t1 where
    "sw_file (eng_writer e') = sw_stream (eng_writer e) @ concat (map (\<lambda>r. event_line (snd r)) (scan_history mem ts e))"
    "\<And>i j. sorted_wrt (<) (slot_log i j (scan_history mem ts e))"
    "t < t1" "\<exists>e1. last_scan mem t1 e1 = (t', e')" "log_complete mem t1 t' e (scan_history mem ts e)"
proof -
  obtain ts t1 e1 where l: "logged mem ts e e1" "last_scan mem t1 e1 = (t', e')" "t < t1" using hot_ends [OF assms(2)] by blast
  have "logged mem (ts @ [t1]) e e'" using l(1) logged_last_scan [OF l(2)] by (rule logged_trans)
  then have "sw_stream (eng_writer e') =
      sw_stream (eng_writer e) @ concat (map (\<lambda>r. event_line (snd r)) (scan_history mem (ts @ [t1]) e))"
    using assms(3) by (simp add: logged_def)
  then show thesis
    using that [of "ts @ [t1]" t1] l last_scan_file [OF l(2) assms(3)] slot_log_increasing [OF assms(1)]
      last_scan_complete [OF assms(1) l(1,2)] by auto
qed

lemma started_facts:
  assumes "NewTracerEngine n os = Started e"
  obtains f where "log_opened os = Inr f" "sw_stream (eng_writer e) = file_bytes f"
    "sw_file (eng_writer e) = file_bytes f" "wf_engine e"
  using assms unfolding NewTracerEngine_Started
  by (auto simp: sw_stream_def sw_file_def osf.stream_def wf_engine_def sw_ok_def bw_ok_def NewWriterSize_def)

text \<open>C4: When \<^verbatim>\<open>hotHarvestLoop\<close> of a freshly started engine returns and no write failed, the log file holds its
  old content followed by exactly one line per record found by its scans, the sequence numbers of
  each slot strictly increase, nothing stays in the buffer, and no finished write is
  left behind: the loop ended with a scan at some time \<open>t1\<close>, and for every finished record that stayed in its
  slot during that scan, whatever happened to the rest of the memory, the log holds a record of the slot
  with at least its sequence number.\<close>

theorem hot_loop_log:
  assumes "NewTracerEngine n os = Started e"
    "hotHarvestLoop fuel mem reads t k e stores = Some (t', k', e', st)" "\<not> sw_failed (eng_writer e')"
  shows "\<exists>f ts t1 e1. log_opened os = Inr f \<and>
     sw_file (eng_writer e') = file_bytes f @ concat (map (\<lambda>r. event_line (snd r)) (scan_history mem ts e)) \<and>
     (\<forall>i j. sorted_wrt (<) (slot_log i j (scan_history mem ts e))) \<and>
     t < t1 \<and> last_scan mem t1 e1 = (t', e') \<and>
     (\<forall>i j p s. slot_stays mem t1 t' i j p s \<and> j < 8 \<and> even (unat (Seq s)) \<and> 0 < Seq s \<and>
        i < min (unat n) (unat (AllocatedCount (sh_header (mem t1)))) \<longrightarrow>
        (\<exists>q \<in> set (slot_log i j (scan_history mem ts e)). Seq s \<le> q))"
proof -
  obtain f where f: "log_opened os = Inr f" "sw_stream (eng_writer e) = file_bytes f" "wf_engine e"
    using started_facts [OF assms(1)] .
  have fresh: "eng_maxStations e = n" "i < unat n \<Longrightarrow> j < 8 \<Longrightarrow> eng_lastSeen e ! i ! j = 0" for i j
    using assms(1) unfolding NewTracerEngine_Started by auto
  obtain ts t1 where ts: "sw_file (eng_writer e') = file_bytes f @ concat (map (\<lambda>r. event_line (snd r)) (scan_history mem ts e))"
      "\<forall>i j. sorted_wrt (<) (slot_log i j (scan_history mem ts e))"
      "t < t1" "\<exists>e1. last_scan mem t1 e1 = (t', e')" "log_complete mem t1 t' e (scan_history mem ts e)"
    using hot_log [OF f(3) assms(2,3)] f(2) by metis
  from ts(5) have "\<forall>i j p s. slot_stays mem t1 t' i j p s \<and> j < 8 \<and> even (unat (Seq s)) \<and> 0 < Seq s \<and>
      i < min (unat n) (unat (AllocatedCount (sh_header (mem t1)))) \<longrightarrow>
      (\<exists>q \<in> set (slot_log i j (scan_history mem ts e)). Seq s \<le> q)"
    unfolding log_complete_def fresh(1) by (metis fresh(2) min_less_iff_conj)
  with f(1) ts(1-4) show ?thesis by blast
qed

theorem hot_loop_log_witness:
  "\<exists>e t' k' e' st f ts. NewTracerEngine 1 demo_os = Started e \<and>
     hotHarvestLoop 42 demo_run (\<lambda>_. ReadFailed) 0 0 e [] = Some (t', k', e', st) \<and>
     \<not> sw_failed (eng_writer e') \<and> log_opened demo_os = Inr f \<and>
     sw_file (eng_writer e') = file_bytes f @ concat (map (\<lambda>r. event_line (snd r)) (scan_history demo_run ts e))"
proof -
  obtain e where e: "NewTracerEngine 1 demo_os = Started e"
    by (auto simp: NewTracerEngine_Started demo_os_def)
  then have wf: "wf_engine e" and room: "room_for e (3 * 42)"
    unfolding NewTracerEngine_Started
    by (auto simp: wf_engine_def sw_ok_def bw_ok_def NewWriterSize_def demo_os_def room_for_def sw_fits_def
        osf.fits_def os_room_def)
  have "quiet_from demo_run 40 (demo_shm 4)" by (simp add: quiet_from_def demo_run_def)
  then obtain t' k' e' st where h: "hotHarvestLoop 42 demo_run (\<lambda>_. ReadFailed) 0 0 e [] = Some (t', k', e', st)"
    using hot_returns [where reads = "\<lambda>_. ReadFailed" and K = 0 and k = 0 and t = 0, OF _ wf]
    by (fastforce simp: disconnect_def simp del: hotHarvestLoop.simps)
  have ok: "\<not> sw_failed (eng_writer e')" by (rule hot_room [OF h room])
  from hot_loop_log [OF e h ok] e h ok show ?thesis by metis
qed

text \<open>Once the log file is closed nothing that is found later reaches it.\<close>

lemma closed_loop:
  "bw_loop k os_write b p = (b', p') \<Longrightarrow> \<not> file_open (bw_sink b) \<Longrightarrow> bw_sink b' = bw_sink b"
proof (induction k arbitrary: b p)
  case (Suc k)
  have closed: "os_write f q = (f, 0, True)" if "\<not> file_open f" for f q using that by (simp add: os_write_def)
  then have "bw_sink (fst (bw_flush os_write c)) = bw_sink c" if "\<not> file_open (bw_sink c)" for c
    using that by (simp add: bw_flush_def)
  with Suc closed show ?case by (auto split: if_splits)
qed simp

lemma closed_write: "\<not> file_open (bw_sink b) \<Longrightarrow> bw_sink (fst (bw_write os_write b p)) = bw_sink b"
  using closed_loop [of 2 b p] by (auto simp: bw_write_def split: prod.splits)

definition log_closed :: "TracerEngine \<Rightarrow> bool" where
  "log_closed e \<longleftrightarrow> \<not> file_open (bw_sink (sw_writer (eng_writer e)))"

lemma closed_events:
  "\<not> file_open (bw_sink (sw_writer sw)) \<Longrightarrow> bw_sink (sw_writer (write_events sw es)) = bw_sink (sw_writer sw)"
  unfolding write_events_def by (induction es arbitrary: sw) (simp_all add: write_event_def Let_def closed_write)

lemma closed_scans:
  "log_closed e \<Longrightarrow> log_closed (scan_all mem ts e) \<and> sw_file (eng_writer (scan_all mem ts e)) = sw_file (eng_writer e)"
  by (induction ts arbitrary: e) (simp_all add: log_closed_def scanned_def doScan_eq closed_events sw_file_def)

lemma closed_Flush: "log_closed e \<Longrightarrow> sw_file (eng_writer (eng_Flush e)) = sw_file (eng_writer e)"
  by (simp add: log_closed_def eng_Flush_def sw_Flush_def sw_file_def bw_flush_def os_write_def Let_def)

lemma Close_closes: "log_closed (eng_Close e)"
  by (simp add: log_closed_def eng_Close_def sw_Close_def os_close_def Let_def)

text \<open>C39: \<^verbatim>\<open>Close\<close> writes out what is buffered and closes the log file, but it does not scan. When no write has failed and the
  disk has room for the buffer, the file then holds exactly what the scans had found, and every record that was due
  before is still due. Since the file is closed, no later scan or flush (the harvesting goroutine may still run) puts
  any of them into it.\<close>

theorem Close_does_not_scan:
  assumes "sw_fits (eng_writer e) 0"
  shows "\<not> sw_failed (eng_writer (eng_Close e)) \<and>
         sw_file (eng_writer (eng_Close e)) = sw_file (eng_writer e) @ bw_buf (sw_writer (eng_writer e)) \<and>
         all_due m (eng_Close e) = all_due m e \<and>
         (\<forall>mem ts. sw_file (eng_writer (eng_Flush (scan_all mem ts (eng_Close e)))) = sw_file (eng_writer (eng_Close e)))"
proof -
  have ok: "\<not> sw_failed (fst (sw_Flush (eng_writer e)))"
    using osf.flush_fits [of "sw_writer (eng_writer e)" 0] assms sw_Flush_err by (simp add: sw_fits_def sw_Flush_def case_prod_unfold)
  then have "\<not> sw_failed (eng_writer (eng_Close e))" by (simp add: eng_Close_def sw_Close_def os_close_def Let_def)
  moreover have "sw_file (eng_writer (eng_Close e)) = sw_file (eng_writer e) @ bw_buf (sw_writer (eng_writer e))"
    using sw_Flush_file [OF ok]
    by (simp add: eng_Close_def sw_Close_file sw_stream_def osf.stream_def sw_file_def [of "eng_writer e"])
  moreover have "all_due m (eng_Close e) = all_due m e"
    by (simp add: eng_Close_def all_due_def scan_range_def clamp_allocated_def)
  ultimately show ?thesis using closed_scans [OF Close_closes] closed_Flush by auto
qed

theorem Close_does_not_scan_witness:
  "let e = scan_all demo_run [0] demo_engine; ev = slot_record (demo_station 2) 3 in
   sw_fits (eng_writer e) 0 \<and> sw_file (eng_writer e) = ''{}'' @ [newline] \<and> all_due (demo_shm 4) e = [(0, 3)] \<and>
   sw_file (eng_writer (eng_Close e)) = ''{}'' @ [newline] @ event_line ev \<and> all_due (demo_shm 4) (eng_Close e) = [(0, 3)]"
proof -
  let ?e = "scan_all demo_run [0] demo_engine"
  have "sw_file (eng_writer ?e) = ''{}'' @ [newline]" "bw_buf (sw_writer (eng_writer ?e)) = event_line (slot_record (demo_station 2) 3)"
    by code_simp+
  moreover have fits: "sw_fits (eng_writer ?e) 0" unfolding sw_fits_def osf.fits_def by code_simp
  moreover have "all_due (demo_shm 4) ?e = [(0, 3)]" by code_simp
  ultimately show ?thesis using Close_does_not_scan [OF fits, of "demo_shm 4"] by (simp add: Let_def del: scan_all.simps)
qed

end
