(* ===== verification/Probe_Harvest.thy ===== *)
theory Probe_Harvest
  imports Probe Engine_Loop "HOL-Library.Multiset"
begin

text \<open>
  Probe and harvester together: nothing torn is ever logged, a harvest after any number of writes
  logs exactly the last eight, batches of at most eight are logged completely and once, and no
  two of fewer than \<open>2 ^ 32\<close> probes share a station.
\<close>

section \<open>The ring of eight slots\<close>

text \<open>Several calls of \<^verbatim>\<open>write_trace\<close> in a row.\<close>

fun write_all :: "payload list \<Rightarrow> 'a probe_scheme \<Rightarrow> 'a probe_scheme" where
  "write_all [] s = s"
| "write_all (p # ps) s = write_all ps (write_trace p s)"

lemma write_all_snoc: "write_all (ps @ [p]) s = write_trace p (write_all ps s)"
  by (induction ps arbitrary: s) auto

lemma write_all_fields [simp]:
  "pr_count (write_all ps s) = pr_count s + word_of_nat (length ps)"
  "Header (pr_station (write_all ps s)) = Header (pr_station s)"
  by (induction ps arbitrary: s) auto

lemma cur_slot_write_all: "cur_slot (write_all ps s) = (cur_slot s + length ps) mod 8"
proof -
  have "unat (pr_count s + word_of_nat (length ps)) mod 8 = (unat (pr_count s) + length ps) mod 8"
    by (simp add: unat_word_ariths unat_of_nat mod_mod_cancel mod_add_right_eq)
  then show ?thesis by (simp add: cur_slot_def unat_mod mod_add_left_eq)
qed

text \<open>How many of the calls went to slot \<open>i\<close>.\<close>

definition slot_hits :: "nat \<Rightarrow> nat \<Rightarrow> nat \<Rightarrow> nat" where
  "slot_hits c n i = card {k. k < n \<and> (c + k) mod 8 = i}"

lemma slot_hits_Suc: "slot_hits c (Suc n) i = slot_hits c n i + of_bool ((c + n) mod 8 = i)"
proof -
  have "{k. k < Suc n \<and> (c + k) mod 8 = i} =
      (if (c + n) mod 8 = i then insert n {k. k < n \<and> (c + k) mod 8 = i} else {k. k < n \<and> (c + k) mod 8 = i})"
    by (auto simp: less_Suc_eq)
  then show ?thesis by (simp add: slot_hits_def)
qed

lemma slot_hits_pos: "0 < slot_hits c n i \<longleftrightarrow> (\<exists>k < n. (c + k) mod 8 = i)"
  by (auto simp: slot_hits_def card_gt_0_iff)

lemma mod8_window: "(c + k) mod 8 = (c + n) mod 8 \<Longrightarrow> k \<le> n \<Longrightarrow> n < k + 8 \<Longrightarrow> k = n" for c k n :: nat
proof -
  assume a: "(c + k) mod 8 = (c + n) mod 8" "k \<le> n" "n < k + 8"
  then have "8 dvd (c + n) - (c + k)" by (metis add_le_cancel_left mod_eq_dvd_iff_nat)
  then have "8 dvd n - k" by simp
  moreover have "n - k < 8" using a by simp
  ultimately show "k = n" using a(2) by (metis diff_is_0_eq dvd_imp_le le_antisym not_less zero_less_iff_neq_zero)
qed

lemma write_all_slots:
  assumes "length (Slots (pr_station s)) = 8"
  shows "length (Slots (pr_station (write_all ps s))) = 8 \<and>
    (\<forall>i < 8. Seq (Slots (pr_station (write_all ps s)) ! i) =
        Seq (Slots (pr_station s) ! i) + word_of_nat (2 * slot_hits (cur_slot s) (length ps) i)) \<and>
    (\<forall>k < length ps. length ps \<le> k + 8 \<longrightarrow>
        epoch_payload (Slots (pr_station (write_all ps s)) ! ((cur_slot s + k) mod 8)) = ps ! k)"
proof (induction ps rule: rev_induct)
  case (snoc p ps)
  let ?w = "write_all ps s" and ?c = "(cur_slot s + length ps) mod 8"
  have len: "length (Slots (pr_station ?w)) = 8" using snoc by simp
  have slots: "Slots (pr_station (write_all (ps @ [p]) s)) =
      (Slots (pr_station ?w))[?c := fill_slot p (Slots (pr_station ?w) ! ?c)]"
    using write_trace_slots [OF len, of p] by (simp add: write_all_snoc cur_slot_write_all)
  have other: "(cur_slot s + k) mod 8 \<noteq> ?c" if "k < length ps" "length ps < k + 8" for k
    using mod8_window [of "cur_slot s" k "length ps"] that by auto
  show ?case
  proof (intro conjI allI impI)
    show "length (Slots (pr_station (write_all (ps @ [p]) s))) = 8" using len by (simp add: slots)
  next
    fix i :: nat assume "i < 8"
    with snoc len show "Seq (Slots (pr_station (write_all (ps @ [p]) s)) ! i) =
        Seq (Slots (pr_station s) ! i) + word_of_nat (2 * slot_hits (cur_slot s) (length (ps @ [p])) i)"
      by (cases "i = ?c") (auto simp: slots slot_hits_Suc)
  next
    fix k assume "k < length (ps @ [p])" "length (ps @ [p]) \<le> k + 8"
    with snoc len other [of k]
    show "epoch_payload (Slots (pr_station (write_all (ps @ [p]) s)) ! ((cur_slot s + k) mod 8)) = (ps @ [p]) ! k"
      by (cases "k = length ps") (auto simp: slots nth_append)
  qed
qed (simp add: assms slot_hits_def)


lemma ring_indices:
  fixes c n :: nat
  defines "K \<equiv> {n - 8..<n}"
  shows "{i \<in> {..<8}. \<exists>k < n. (c + k) mod 8 = i} = (\<lambda>k. (c + k) mod 8) ` K" "inj_on (\<lambda>k. (c + k) mod 8) K"
proof -
  show "inj_on (\<lambda>k. (c + k) mod 8) K"
  proof (rule inj_onI)
    fix x y assume "x \<in> K" "y \<in> K" "(c + x) mod 8 = (c + y) mod 8"
    moreover have "x < y + 8" "y < x + 8" using \<open>x \<in> K\<close> \<open>y \<in> K\<close> by (auto simp: K_def)
    ultimately show "x = y"
      using mod8_window [of c x y] mod8_window [of c y x] by (cases "x \<le> y") auto
  qed
  have "\<exists>k \<in> K. (c + k) mod 8 = (c + j) mod 8" if "j < n" for j
  proof -
    let ?k = "j + 8 * ((n - 1 - j) div 8)"
    have "8 * ((n - 1 - j) div 8) + (n - 1 - j) mod 8 = n - 1 - j" "(n - 1 - j) mod 8 < 8" by simp_all
    then have "?k \<in> K" using that by (auto simp: K_def)
    moreover have "(c + ?k) mod 8 = (c + j) mod 8" by (simp add: add.assoc [symmetric])
    ultimately show ?thesis by blast
  qed
  moreover have "k < n" if "k \<in> K" for k using that by (simp add: K_def)
  ultimately show "{i \<in> {..<8}. \<exists>k < n. (c + k) mod 8 = i} = (\<lambda>k. (c + k) mod 8) ` K"
    by (auto simp: image_iff) metis
qed

lemma mset_drop_ring: "mset (drop (length ps - 8) ps) = image_mset ((!) ps) (mset_set {length ps - 8..<length ps})"
proof -
  have "drop (length ps - 8) ps = map ((!) ps) [length ps - 8..<length ps]"
    by (rule nth_equalityI) auto
  then show ?thesis by (simp only: mset_map mset_upt)
qed

lemma ring_due:
  assumes inv: "probe_inv s" "pr_stage s = None"
    and bound: "\<forall>i < 8. 2 * (length (pr_written s i) + length ps) < 2 ^ 64"
    and seen: "lastSeenSeqs = map Seq (Slots (pr_station s))" and i: "i < 8"
  shows "slot_due (pr_station (write_all ps s)) lastSeenSeqs i \<longleftrightarrow> (\<exists>k < length ps. (cur_slot s + k) mod 8 = i)"
proof -
  let ?h = "slot_hits (cur_slot s) (length ps) i" and ?n = "length (pr_written s i)"
  have len: "length (Slots (pr_station s)) = 8" using inv(1) by (simp add: probe_inv_def)
  have "card {k. k < length ps \<and> (cur_slot s + k) mod 8 = i} \<le> card {..<length ps}" by (intro card_mono) auto
  then have h: "?h \<le> length ps" by (simp add: slot_hits_def)
  have old: "Seq (Slots (pr_station s) ! i) = word_of_nat (2 * ?n)"
    using probe_inv_seq [OF inv(1) i] inv(2) by (simp add: pr_writing_def)
  have new: "Seq (Slots (pr_station (write_all ps s)) ! i) = word_of_nat (2 * (?n + ?h))"
    using write_all_slots [OF len, of ps] i old by simp
  have b: "2 * (?n + length ps) < 2 ^ 64" using bound i by blast
  then have b': "2 * (?n + ?h) < 2 ^ 64" "2 * ?n < 2 ^ 64" using h by simp_all
  have w: "unat (word_of_nat x :: u64) = x" if "x < 2 ^ 64" for x using that by (simp add: unat_of_nat)
  have u: "unat (Seq (Slots (pr_station (write_all ps s)) ! i)) = 2 * (?n + ?h)"
    "unat (lastSeenSeqs ! i) = 2 * ?n"
    using i len by (simp_all only: new old seen nth_map w [OF b'(1)] w [OF b'(2)])
  then show ?thesis
    unfolding slot_due_def word_less_nat_alt u by (simp add: slot_hits_pos)
qed

lemma ring_harvest:
  assumes inv: "probe_inv s" "pr_stage s = None"
    and bound: "\<forall>i < 8. 2 * (length (pr_written s i) + length ps) < 2 ^ 64"
    and seen: "lastSeenSeqs = map Seq (Slots (pr_station s))"
  shows "mset (map (\<lambda>r. event_payload (snd r)) (harvest_events (\<lambda>_. pr_station (write_all ps s)) t lastSeenSeqs))
         = mset (drop (length ps - 8) ps)"
proof -
  let ?w = "pr_station (write_all ps s)" and ?K = "{length ps - 8..<length ps}"
  let ?f = "\<lambda>k. (cur_slot s + k) mod 8" and ?pay = "\<lambda>i. epoch_payload (Slots ?w ! i)"
  have len: "length (Slots (pr_station s)) = 8" using inv(1) by (simp add: probe_inv_def)
  have due: "filter (slot_due ?w lastSeenSeqs) [0..<8] = filter (\<lambda>i. \<exists>k < length ps. ?f k = i) [0..<8]"
    using ring_due [OF inv bound seen] by (intro filter_cong) auto
  have "harvest_events (\<lambda>_. ?w) t lastSeenSeqs =
      map (\<lambda>i. (i, slot_record ?w i)) (filter (\<lambda>i. \<exists>k < length ps. ?f k = i) [0..<8])"
    using len loop_events_const [of "[0..<8]" lastSeenSeqs ?w t] unfolding due by (simp add: seen atLeast0LessThan)
  moreover have "event_payload (slot_record ?w i) = ?pay i" for i
    by (simp add: event_payload_def slot_record_def epoch_payload_def Let_def)
  ultimately have "mset (map (\<lambda>r. event_payload (snd r)) (harvest_events (\<lambda>_. ?w) t lastSeenSeqs)) =
      image_mset ?pay (mset (filter (\<lambda>i. \<exists>k < length ps. ?f k = i) [0..<8]))"
    by (simp add: comp_def)
  also have "mset (filter (\<lambda>i. \<exists>k < length ps. ?f k = i) [0..<8]) = mset_set (?f ` ?K)"
    using ring_indices(1) [of "length ps" "cur_slot s"]
    by (simp add: mset_filter [symmetric] mset_set_set [symmetric] atLeast0LessThan)
  also have "\<dots> = image_mset ?f (mset_set ?K)"
    using ring_indices(2) [of "cur_slot s" "length ps"] by (simp add: image_mset_mset_set)
  also have "image_mset ?pay (image_mset ?f (mset_set ?K)) = image_mset ((!) ps) (mset_set ?K)"
    using write_all_slots [OF len, of ps] by (auto simp: image_mset.compositionality intro!: image_mset_cong)
  finally show ?thesis by (simp add: mset_drop_ring)
qed

section \<open>Rounds of writing and harvesting\<close>

lemma probe_inv_write_trace:
  assumes "probe_inv s" "pr_born s" "pr_stage s = None"
  shows "probe_inv (write_trace p s)"
proof -
  let ?old = "Seq (Slots (pr_station s) ! cur_slot s)"
  let ?d = "(wt_payload p (wt_lock p s))\<lparr>pr_stage := Some (ActiveDone, p, ?old)\<rparr>"
  have "wt_store\<^sup>*\<^sup>* (wt_lock p s) ?d"
    by (rule wt_stores_steps) (simp add: wt_lock_def Let_def)
  then have "probe_inv ?d"
    by (induction rule: rtranclp_induct) (auto intro: probe_inv_lock [OF assms] probe_inv_store)
  then have "probe_inv (wt_unlock p ?old ?d)" by (rule probe_inv_unlock) simp
  moreover have "wt_unlock p ?old ?d = write_trace p s"
    by (simp add: write_trace_def wt_unlock_def put_slot_def wt_payload_def cur_slot_def Let_def)
  ultimately show ?thesis by simp
qed

definition idle :: "'a probe_scheme \<Rightarrow> bool" where
  "idle s \<longleftrightarrow> probe_inv s \<and> pr_born s \<and> pr_stage s = None"

lemma idle_write_all: "idle s \<Longrightarrow> idle (write_all ps s)"
  by (induction ps arbitrary: s) (auto simp: idle_def probe_inv_write_trace)

lemma written_write_all: "length (pr_written (write_all ps s) i) \<le> length (pr_written s i) + length ps"
proof (induction ps arbitrary: s)
  case (Cons p ps)
  from Cons [of "write_trace p s"] show ?case by (auto split: if_splits)
qed simp

text \<open>Room for \<open>n\<close> more writes before a sequence number wraps.\<close>

definition seq_room :: "'a probe_scheme \<Rightarrow> nat \<Rightarrow> bool" where
  "seq_room s n \<longleftrightarrow> (\<forall>i < 8. 2 * (length (pr_written s i) + n) < 2 ^ 64)"

lemma seq_room_write_all: "seq_room s (length ps + n) \<Longrightarrow> seq_room (write_all ps s) n"
  unfolding seq_room_def
proof (intro allI impI)
  fix i :: nat assume "\<forall>i < 8. 2 * (length (pr_written s i) + (length ps + n)) < 2 ^ 64" "i < 8"
  then have "2 * (length (pr_written s i) + (length ps + n)) < 2 ^ 64" by blast
  moreover have "2 * (length (pr_written (write_all ps s) i) + n) \<le> 2 * (length (pr_written s i) + (length ps + n))"
    using written_write_all [of ps s i] by simp
  ultimately show "2 * (length (pr_written (write_all ps s) i) + n) < 2 ^ 64" by (rule le_less_trans [rotated])
qed

text \<open>The counters of a harvester that has seen everything.\<close>

definition caught_up :: "'a probe_scheme \<Rightarrow> u64 list" where
  "caught_up s = map Seq (Slots (pr_station s))"

lemma harvest_last_eight:
  assumes "idle s" "seq_room s (length ps)"
    "Harvest (\<lambda>_. pr_station (write_all ps s)) t (caught_up s) sw = (t', seen, sw', n)"
  shows "\<exists>evs. sw' = write_events sw evs \<and> n = length evs \<and> seen = caught_up (write_all ps s) \<and>
         mset (map event_payload evs) = mset (drop (length ps - 8) ps)"
proof -
  let ?w = "pr_station (write_all ps s)"
  let ?evs = "map snd (harvest_events (\<lambda>_. ?w) t (caught_up s))"
  have inv: "probe_inv s" "pr_stage s = None" and len: "length (Slots (pr_station s)) = 8"
    using assms(1) by (auto simp: idle_def probe_inv_def)
  have len': "length (Slots ?w) = 8" using write_all_slots [OF len] by blast
  have hits: "slot_due ?w (caught_up s) i \<longleftrightarrow> 0 < slot_hits (cur_slot s) (length ps) i" if "i < 8" for i
    using ring_due [OF inv _ caught_up_def that] assms(2) by (simp add: seq_room_def slot_hits_pos)
  have "loop_seen (\<lambda>_. ?w) t [0..<8] (caught_up s) ! i = caught_up (write_all ps s) ! i" if "i < 8" for i
    using loop_seen_const [of "[0..<8]" "caught_up s" i ?w t] that len len' hits [OF that] write_all_slots [OF len, of ps]
    by (auto simp: caught_up_def atLeast0LessThan)
  then have "loop_seen (\<lambda>_. ?w) t [0..<8] (caught_up s) = caught_up (write_all ps s)"
    using len len' by (intro nth_equalityI) (auto simp: caught_up_def)
  then show ?thesis
    using assms(3) ring_harvest [OF inv _ caught_up_def] assms(2)
    by (intro exI [of _ ?evs]) (auto simp: Harvest_eq seq_room_def comp_def)
qed

text \<open>A probe that writes a batch, is harvested, writes the next batch, and so on.\<close>

fun harvest_rounds ::
  "payload list list \<Rightarrow> 'a probe_scheme \<Rightarrow> u64 list \<Rightarrow> StationWriter \<Rightarrow> u64 list \<times> StationWriter \<times> nat" where
  "harvest_rounds [] s lastSeenSeqs sw = (lastSeenSeqs, sw, 0)"
| "harvest_rounds (ps # pss) s lastSeenSeqs sw =
     (case Harvest (\<lambda>_. pr_station (write_all ps s)) 0 lastSeenSeqs sw of
        (_, seen, sw', n) \<Rightarrow>
          (case harvest_rounds pss (write_all ps s) seen sw' of (seen', sw'', m) \<Rightarrow> (seen', sw'', n + m)))"

lemma rounds_logged:
  assumes "idle s" "seq_room s (length (concat pss))" "\<forall>ps \<in> set pss. length ps \<le> 8"
    "harvest_rounds pss s (caught_up s) sw = (seen, sw', n)"
  shows "\<exists>evs. sw' = write_events sw evs \<and> n = length evs \<and> mset (map event_payload evs) = mset (concat pss)"
  using assms
proof (induction pss arbitrary: s sw n)
  case (Cons ps pss)
  let ?s = "write_all ps s"
  obtain t1 seen1 sw1 n1 where h: "Harvest (\<lambda>_. pr_station ?s) 0 (caught_up s) sw = (t1, seen1, sw1, n1)"
    by (cases "Harvest (\<lambda>_. pr_station ?s) 0 (caught_up s) sw")
  obtain evs where evs: "sw1 = write_events sw evs" "n1 = length evs" "seen1 = caught_up ?s"
      "mset (map event_payload evs) = mset ps"
    using harvest_last_eight [OF Cons.prems(1) _ h] Cons.prems(2,3) by (fastforce simp: seq_room_def)
  obtain m where m: "harvest_rounds pss ?s (caught_up ?s) sw1 = (seen, sw', m)" "n = n1 + m"
    using Cons.prems(4) h evs(3) by (auto split: prod.splits)
  have "seq_room ?s (length (concat pss))"
    using Cons.prems(2) by (intro seq_room_write_all) simp
  then obtain evs' where "sw' = write_events sw1 evs'" "m = length evs'"
      "mset (map event_payload evs') = mset (concat pss)"
    using Cons.IH [OF idle_write_all [OF Cons.prems(1)] _ _ m(1)] Cons.prems(3) by auto
  with evs m(2) show ?case
    by (intro exI [of _ "evs @ evs'"]) (simp add: write_events_def)
qed (simp add: write_events_def)

section \<open>Properties\<close>

definition cpp_demo :: probe where
  "cpp_demo = (set_header 9 5 False (cpp_init 9))\<lparr>pr_born := True\<rparr>"

definition demo_payload :: "u64 \<Rightarrow> payload" where
  "demo_payload n = \<lparr>p_tid = 7, p_addr = n, p_active = False, p_ts = n\<rparr>"

definition demo_writer :: StationWriter where
  "demo_writer = \<lparr>sw_writer = NewWriterSize demo_file 4096, sw_line = []\<rparr>"

lemma cpp_demo_steps: "cpp_step\<^sup>*\<^sup>* (cpp_init 9) cpp_demo"
  using cpp_construct [of "cpp_init 9" 5] by (auto simp: cpp_demo_def cpp_init_def)

lemma idle_cpp_demo: "idle cpp_demo"
  using probe_inv_init(1) [of 9] cpp.steps_keep [OF cpp_demo_steps]
  by (simp add: idle_def) (simp add: cpp_demo_def cpp_init_def set_header_def)

text \<open>A Rust probe that has reported one suspension.\<close>

definition rust_born :: PollTrace where
  "rust_born = (set_header 4 6 False (rust_init 4))\<lparr>pr_born := True\<rparr>"

definition rust_written :: PollTrace where
  "rust_written = (write_trace (demo_payload 3) rust_born)\<lparr>pt_pending := True\<rparr>"

definition demo_batches :: "payload list list" where
  "demo_batches = [map demo_payload [1, 2, 3, 4, 5, 6, 7, 8], map demo_payload [9, 10]]"

lemma demo_batches_size: "length (concat demo_batches) = 10" "\<forall>ps \<in> set demo_batches. length ps \<le> 8"
  by (simp_all add: demo_batches_def)

lemma demo_room: "seq_room cpp_demo 10"
  by (simp add: seq_room_def cpp_demo_def cpp_init_def set_header_def)

text \<open>Whatever \<^verbatim>\<open>Harvest\<close> logs for a station written by a C++ probe, at any interleaving of the probe's
  stores with the reader's loads, is one finished call of \<^verbatim>\<open>write_trace\<close>: all four fields from the same
  call, the sequence number twice its position in the slot's history, the identifier the probe's. No
  torn or invented record reaches the log. (Fewer than \<open>2 ^ 63\<close> writes per slot, so that the number does not
  wrap; stores visible in program order.)\<close>

lemma cpp_harvest_untorn:
  assumes "cpp_step\<^sup>*\<^sup>* (cpp_init this) (run 0)" "\<And>u. cpp_step\<^sup>*\<^sup>* (run u) (run (Suc u))"
    "\<And>u i. length (pr_written (run u) i) < 2 ^ 63" "length lastSeenSeqs = 8"
    "Harvest (\<lambda>u. pr_station (run u)) t lastSeenSeqs sw = (t', seen, sw', n)"
  shows "\<exists>evs. length evs = n \<and>
    (\<not> sw_failed sw' \<longrightarrow> sw_stream sw' = sw_stream sw @ concat (map event_line evs)) \<and>
    (\<forall>e \<in> set evs. \<exists>u i. t \<le> u \<and> i < 8 \<and> pr_written (run u) i \<noteq> [] \<and>
       event_payload e = last (pr_written (run u) i) \<and>
       unat (ev_seq e) = 2 * length (pr_written (run u) i) \<and> ev_probe e = this)"
proof -
  have run: "cpp.probe_run run" using assms(1,2) cpp.steps_keep probe_inv_init(1) by (auto simp: cpp.probe_run_def)
  have "cpp.phase (run u) i < 2 ^ 64" for u i using assms(3) [of u i] by (simp add: cpp.phase_def)
  moreover have "pr_id (run u) = this" for u
    using cpp.steps_keep [OF assms(1) probe_inv_init(1)] cpp.probe_run_keep [OF run, of 0 u]
    by (simp add: cpp_init_def)
  ultimately show ?thesis using cpp.harvest_log_untorn [OF run assms(4) _ assms(5)] by simp
qed

text \<open>The same for the Rust probe, whose resumptions are reported only after a suspension.\<close>

lemma rust_harvest_untorn:
  assumes "rust_step\<^sup>*\<^sup>* (rust_init probe) (run 0)" "\<And>u. rust_step\<^sup>*\<^sup>* (run u) (run (Suc u))"
    "\<And>u i. length (pr_written (run u) i) < 2 ^ 63" "length lastSeenSeqs = 8"
    "Harvest (\<lambda>u. pr_station (run u)) t lastSeenSeqs sw = (t', seen, sw', n)"
  shows "\<exists>evs. length evs = n \<and>
    (\<not> sw_failed sw' \<longrightarrow> sw_stream sw' = sw_stream sw @ concat (map event_line evs)) \<and>
    (\<forall>e \<in> set evs. \<exists>u i. t \<le> u \<and> i < 8 \<and> pr_written (run u) i \<noteq> [] \<and>
       event_payload e = last (pr_written (run u) i) \<and>
       unat (ev_seq e) = 2 * length (pr_written (run u) i) \<and> ev_probe e = probe)"
proof -
  have run: "rust.probe_run run" using assms(1,2) rust.steps_keep probe_inv_init(2) by (auto simp: rust.probe_run_def)
  have "rust.phase (run u) i < 2 ^ 64" for u i using assms(3) [of u i] by (simp add: rust.phase_def)
  moreover have "pr_id (run u) = probe" for u
    using rust.steps_keep [OF assms(1) probe_inv_init(2)] rust.probe_run_keep [OF run, of 0 u]
    by (simp add: rust_init_def)
  ultimately show ?thesis using rust.harvest_log_untorn [OF run assms(4) _ assms(5)] by simp
qed

text \<open>C13: A probe that writes at most eight events between two harvests loses none: over any number of
  such rounds, starting from a harvester that has seen everything, exactly the events written are
  logged, each once.\<close>

theorem harvest_rounds_complete:
  assumes "idle s" "seq_room s (length (concat pss))" "\<forall>ps \<in> set pss. length ps \<le> 8"
    "harvest_rounds pss s (caught_up s) sw = (seen, sw', n)"
  shows "n = length (concat pss) \<and>
    (\<exists>evs. mset (map event_payload evs) = mset (concat pss) \<and>
       (\<not> sw_failed sw' \<longrightarrow> sw_stream sw' = sw_stream sw @ concat (map event_line evs)))"
proof -
  obtain evs where "sw' = write_events sw evs" "n = length evs"
      "mset (map event_payload evs) = mset (concat pss)"
    using rounds_logged [OF assms] by blast
  moreover have "length evs = length (concat pss)"
    using \<open>mset (map event_payload evs) = mset (concat pss)\<close> by (metis length_map mset_eq_length)
  ultimately show ?thesis using write_events_stream [of sw evs] by auto
qed

theorem harvest_rounds_complete_witness:
  "idle cpp_demo \<and> seq_room cpp_demo (length (concat demo_batches)) \<and> list_all (\<lambda>ps. length ps \<le> 8) demo_batches \<and>
   (\<exists>seen sw' evs. harvest_rounds demo_batches cpp_demo (caught_up cpp_demo) demo_writer = (seen, sw', 10) \<and>
      mset (map event_payload evs) = mset (concat demo_batches))"
proof -
  obtain seen sw' n where h: "harvest_rounds demo_batches cpp_demo (caught_up cpp_demo) demo_writer = (seen, sw', n)"
    by (cases "harvest_rounds demo_batches cpp_demo (caught_up cpp_demo) demo_writer")
  have room: "seq_room cpp_demo (length (concat demo_batches))" by (simp only: demo_batches_size demo_room)
  from harvest_rounds_complete [OF idle_cpp_demo room demo_batches_size(2) h]
  obtain evs where "n = 10" "mset (map event_payload evs) = mset (concat demo_batches)"
    unfolding demo_batches_size(1) by blast
  moreover have "list_all (\<lambda>ps. length ps \<le> 8) demo_batches" using demo_batches_size(2) by (simp add: list_all_iff)
  ultimately show ?thesis using h room idle_cpp_demo by blast
qed

text \<open>C14: What a harvest after any number \<open>n\<close> of writes logs: the last \<open>min 8 n\<close> events, each
  once; the older ones are overwritten in the ring and lost. The counters it returns are the
  current sequence numbers.\<close>

theorem harvest_keeps_last_eight:
  assumes "idle s" "seq_room s (length ps)"
    "Harvest (\<lambda>_. pr_station (write_all ps s)) t (caught_up s) sw = (t', seen, sw', n)"
  shows "n = min 8 (length ps) \<and> seen = caught_up (write_all ps s) \<and>
    (\<exists>evs. mset (map event_payload evs) = mset (drop (length ps - 8) ps) \<and>
       (\<not> sw_failed sw' \<longrightarrow> sw_stream sw' = sw_stream sw @ concat (map event_line evs)))"
proof -
  obtain evs where e: "sw' = write_events sw evs" "n = length evs" "seen = caught_up (write_all ps s)"
      "mset (map event_payload evs) = mset (drop (length ps - 8) ps)"
    using harvest_last_eight [OF assms] by blast
  moreover have "length evs = length (drop (length ps - 8) ps)"
    using e(4) by (metis length_map mset_eq_length)
  ultimately show ?thesis using write_events_stream [of sw evs] by auto
qed

theorem harvest_keeps_last_eight_witness:
  "idle cpp_demo \<and> seq_room cpp_demo (length (concat demo_batches)) \<and> length (concat demo_batches) = 10 \<and>
   (\<exists>t' sw'. Harvest (\<lambda>_. pr_station (write_all (concat demo_batches) cpp_demo)) 0 (caught_up cpp_demo) demo_writer =
      (t', caught_up (write_all (concat demo_batches) cpp_demo), sw', 8))"
proof -
  let ?ps = "concat demo_batches"
  obtain t seen sw' n where h: "Harvest (\<lambda>_. pr_station (write_all ?ps cpp_demo)) 0 (caught_up cpp_demo) demo_writer
      = (t, seen, sw', n)"
    by (cases "Harvest (\<lambda>_. pr_station (write_all ?ps cpp_demo)) 0 (caught_up cpp_demo) demo_writer")
  have room: "seq_room cpp_demo (length ?ps)" by (simp only: demo_batches_size demo_room)
  have "n = min 8 10" "seen = caught_up (write_all ?ps cpp_demo)"
    using harvest_keeps_last_eight [OF idle_cpp_demo room h] by (simp_all only: demo_batches_size)
  then have "n = 8" by simp
  with h room idle_cpp_demo demo_batches_size(1) \<open>seen = caught_up (write_all ?ps cpp_demo)\<close> show ?thesis by blast
qed

text \<open>C36: Allocation: the \<open>k\<close>-th probe created gets station \<open>k\<close> while there are stations, then none, so two of
  fewer than \<open>2 ^ 32\<close> probes never share a station. The 32-bit counter keeps counting and wraps: probe
  number \<open>2 ^ 32\<close> is given the station of probe 0 again.\<close>

theorem probe_alloc_unique:
  assumes "AllocatedCount h = 0"
  shows "(\<forall>k < 2 ^ 32. snd (probe_alloc (alloc_many k h)) = (if k < unat (MaxStations h) then Some k else None)) \<and>
         snd (probe_alloc (alloc_many (2 ^ 32) h)) = snd (probe_alloc h)"
proof -
  have word: "(word_of_nat (2 ^ 32) :: u32) = 0"
    by (simp add: word_eq_iff_unsigned)
  have "unat (word_of_nat k :: u32) = k" if "k < 2 ^ 32" for k
    using that by (simp add: unat_of_nat)
  then show ?thesis
    using assms alloc_many_count [of _ h] word
    by (auto simp: probe_alloc_def Let_def word_less_nat_alt simp del: of_nat_power)
qed

theorem probe_alloc_unique_witness:
  "let h = \<lparr>MagicNum = 0, Version = 1, MaxStations = 2, AllocatedCount = 0, TracerSleeping = 0\<rparr> in
   map (\<lambda>k. snd (probe_alloc (alloc_many k h))) [0, 1, 2] = [Some 0, Some 1, None] \<and>
   snd (probe_alloc (alloc_many (2 ^ 32) h)) = Some 0"
proof -
  let ?h = "\<lparr>MagicNum = 0, Version = 1, MaxStations = 2, AllocatedCount = 0, TracerSleeping = 0\<rparr>"
  have "snd (probe_alloc ?h) = Some 0" by (simp add: probe_alloc_def Let_def)
  with probe_alloc_unique [of ?h] show ?thesis by (simp add: Let_def del: alloc_many.simps)
qed

end
