(* ===== verification/Traced_Future.thy ===== *)
theory Traced_Future
  imports Probe_Harvest
begin

text \<open>
  The operations of \<^verbatim>\<open>PollTrace\<close> and \<^verbatim>\<open>TracedFuture::poll\<close> of the Rust kit as functions on a whole call, each shown to be a
  sequence of the steps of theory \<open>Probe\<close>, and the events a traced future leaves in its station.
\<close>

section \<open>The code\<close>

text \<open>What \<^verbatim>\<open>get_tid\<close> and \<^verbatim>\<open>monotonic_ns\<close> return during a call of \<^verbatim>\<open>write_trace\<close>.\<close>

type_synonym stamp = "u64 \<times> u64"

definition trace_payload :: "u64 \<Rightarrow> bool \<Rightarrow> stamp \<Rightarrow> payload" where
  "trace_payload addr is_active st = \<lparr>p_tid = fst st, p_addr = addr, p_active = is_active, p_ts = snd st\<rparr>"

definition on_resume :: "stamp \<Rightarrow> PollTrace \<Rightarrow> PollTrace" where
  "on_resume st s =
     (if pt_pending s then (write_trace (trace_payload 0 True st) s)\<lparr>pt_pending := False\<rparr> else s)"

definition on_pending_addr :: "u64 \<Rightarrow> stamp \<Rightarrow> PollTrace \<Rightarrow> PollTrace" where
  "on_pending_addr addr st s = (write_trace (trace_payload addr False st) s)\<lparr>pt_pending := True\<rparr>"

definition mark_dead :: "PollTrace \<Rightarrow> PollTrace" where
  "mark_dead s =
     (if pt_dead s then s\<lparr>pt_pending := False, pt_dead := True\<rparr>
      else (set_header (ProbeID (Header (pr_station s))) (BirthTS (Header (pr_station s))) True s)
             \<lparr>pt_pending := False, pt_dead := True\<rparr>)"

datatype poll_result = Pending | Ready

text \<open>One call of \<^verbatim>\<open>poll\<close>: the result of the inner future, its address, and the stamps of the two calls of \<^verbatim>\<open>write_trace\<close> it may make.\<close>

record poll_call =
  pc_result :: poll_result
  pc_addr :: u64
  pc_resumed :: stamp
  pc_suspended :: stamp

definition poll :: "poll_call \<Rightarrow> PollTrace \<Rightarrow> PollTrace" where
  "poll c s =
     (let s = on_resume (pc_resumed c) s
      in case pc_result c of
           Pending \<Rightarrow> on_pending_addr (pc_addr c) (pc_suspended c) s
         | Ready \<Rightarrow> mark_dead s)"

section \<open>A call is a sequence of steps\<close>

definition ready_probe :: "PollTrace \<Rightarrow> bool" where
  "ready_probe s \<longleftrightarrow> pr_born s \<and> pr_stage s = None"

lemma on_resume_steps:
  assumes "ready_probe s"
  shows "rust_step\<^sup>*\<^sup>* s (on_resume st s)" "ready_probe (on_resume st s)"
proof -
  show "rust_step\<^sup>*\<^sup>* s (on_resume st s)"
  proof (cases "pt_pending s")
    case True
    let ?p = "trace_payload 0 True st"
    have "rust_step s (wt_lock ?p s)"
      using assms True by (intro rust_on_resume) (simp_all add: ready_probe_def trace_payload_def)
    from rust_write_steps [OF this] assms True show ?thesis
      by (simp add: on_resume_def ready_probe_def trace_payload_def)
  qed (simp add: on_resume_def)
  show "ready_probe (on_resume st s)" using assms by (simp add: on_resume_def ready_probe_def)
qed

lemma on_pending_steps:
  assumes "ready_probe s"
  shows "rust_step\<^sup>*\<^sup>* s (on_pending_addr addr st s)" "ready_probe (on_pending_addr addr st s)"
proof -
  let ?p = "trace_payload addr False st"
  have "rust_step s (wt_lock ?p s)"
    using assms by (intro rust_on_pending) (simp_all add: ready_probe_def trace_payload_def)
  from rust_write_steps [OF this] assms show "rust_step\<^sup>*\<^sup>* s (on_pending_addr addr st s)"
    by (simp add: on_pending_addr_def ready_probe_def trace_payload_def)
  show "ready_probe (on_pending_addr addr st s)" using assms by (simp add: on_pending_addr_def ready_probe_def)
qed

lemma mark_dead_steps:
  assumes "ready_probe s"
  shows "rust_step\<^sup>*\<^sup>* s (mark_dead s)" "ready_probe (mark_dead s)"
proof -
  show "rust_step\<^sup>*\<^sup>* s (mark_dead s)"
  proof (cases "pt_dead s")
    case True
    then have "mark_dead s = s\<lparr>pt_pending := False\<rparr>" by (cases s) (simp add: mark_dead_def)
    with rust_dead_again [of s] assms True show ?thesis by (simp add: ready_probe_def r_into_rtranclp)
  next
    case False
    with rust_mark_dead [of s] assms show ?thesis by (simp add: mark_dead_def ready_probe_def r_into_rtranclp)
  qed
  show "ready_probe (mark_dead s)" using assms by (simp add: mark_dead_def ready_probe_def set_header_def)
qed

lemma poll_steps:
  assumes "ready_probe s"
  shows "rust_step\<^sup>*\<^sup>* s (poll c s)" "ready_probe (poll c s)"
  using on_resume_steps [OF assms, of "pc_resumed c"] on_pending_steps mark_dead_steps
  by (cases "pc_result c"; simp add: poll_def; blast intro: rtranclp_trans)+

section \<open>The events of a traced future\<close>

text \<open>The events of calls that all return \<^verbatim>\<open>Pending\<close>: a resumption before each one but the first, then a suspension.\<close>

fun pending_events :: "bool \<Rightarrow> poll_call list \<Rightarrow> payload list" where
  "pending_events pending [] = []"
| "pending_events pending (c # cs) =
     (if pending then [trace_payload 0 True (pc_resumed c)] else []) @
     trace_payload (pc_addr c) False (pc_suspended c) # pending_events True cs"

lemma write_trace_pending:
  "write_trace p (s\<lparr>pt_pending := b\<rparr>) = (write_trace p s)\<lparr>pt_pending := b\<rparr>" for s :: PollTrace
  by (simp add: write_trace_def wt_unlock_def wt_payload_def wt_lock_def put_slot_def cur_slot_def Let_def)

lemma write_all_pending:
  "write_all ps (s\<lparr>pt_pending := b\<rparr>) = (write_all ps s)\<lparr>pt_pending := b\<rparr>" for s :: PollTrace
  by (induction ps arbitrary: s) (simp_all add: write_trace_pending)

lemma write_trace_flags [simp]:
  "pt_pending (write_trace p s) = pt_pending s" "pt_dead (write_trace p s) = pt_dead s" for s :: PollTrace
  by (simp_all add: write_trace_def wt_unlock_def wt_payload_def wt_lock_def put_slot_def Let_def)

lemma write_all_flags [simp]:
  "pt_pending (write_all ps s) = pt_pending s" "pt_dead (write_all ps s) = pt_dead s" for s :: PollTrace
  by (induction ps arbitrary: s) simp_all

lemma poll_pending:
  "pc_result c = Pending \<Longrightarrow>
   poll c s = (write_all (pending_events (pt_pending s) [c]) s)\<lparr>pt_pending := True\<rparr>"
  by (auto simp: poll_def on_resume_def on_pending_addr_def write_trace_pending Let_def)

lemma write_all_append: "write_all (ps @ qs) s = write_all qs (write_all ps s)"
  by (induction ps arbitrary: s) simp_all

lemma polls_pending:
  "\<forall>c \<in> set cs. pc_result c = Pending \<Longrightarrow>
   fold poll cs s = (write_all (pending_events (pt_pending s) cs) s)\<lparr>pt_pending := pt_pending s \<or> cs \<noteq> []\<rparr>"
proof (induction cs arbitrary: s)
  case (Cons c cs)
  let ?ps = "pending_events (pt_pending s) [c]"
  have "fold poll (c # cs) s = fold poll cs ((write_all ?ps s)\<lparr>pt_pending := True\<rparr>)"
    using Cons.prems poll_pending [of c s] by simp
  also have "\<dots> = (write_all (pending_events True cs) (write_all ?ps s))\<lparr>pt_pending := True\<rparr>"
    using Cons.IH [of "(write_all ?ps s)\<lparr>pt_pending := True\<rparr>"] Cons.prems by (simp add: write_all_pending)
  finally show ?case by (simp flip: write_all_append)
qed simp

lemma pending_events_flags: "map p_active (pending_events True cs) = concat (replicate (length cs) [True, False])"
  by (induction cs) (simp_all add: trace_payload_def)

definition future_events :: "poll_call list \<Rightarrow> poll_call \<Rightarrow> payload list" where
  "future_events cs c =
     pending_events False cs @ (if cs \<noteq> [] then [trace_payload 0 True (pc_resumed c)] else [])"

lemma alternate_shift: "False # concat (replicate n [True, False]) @ [True] = concat (replicate (Suc n) [False, True])"
  by (induction n) simp_all

lemma future_events_flags: "map p_active (future_events cs c) = concat (replicate (length cs) [False, True])"
proof (cases cs)
  case (Cons d ds)
  then show ?thesis
    using alternate_shift [of "length ds"] by (simp add: future_events_def trace_payload_def pending_events_flags)
qed (simp add: future_events_def)

lemma future_events_addrs: "map p_addr (future_events cs c) = concat (map (\<lambda>d. [pc_addr d, 0]) cs)"
proof -
  have "map p_addr (pending_events True ds) @ [0] = 0 # concat (map (\<lambda>d. [pc_addr d, 0]) ds)" for ds
    by (induction ds) (simp_all add: trace_payload_def)
  then show ?thesis by (cases cs) (simp_all add: future_events_def trace_payload_def)
qed

lemma polls_steps: "ready_probe s \<Longrightarrow> rust_step\<^sup>*\<^sup>* s (fold poll cs s) \<and> ready_probe (fold poll cs s)"
proof (induction cs arbitrary: s)
  case (Cons c cs)
  with poll_steps [of s c] show ?case by (auto intro: rtranclp_trans)
qed simp

text \<open>C35: A traced future that returns \<^verbatim>\<open>Pending\<close> some number of times and then \<^verbatim>\<open>Ready\<close> leaves exactly two events per suspension: they
  alternate, suspended with the future's address, resumed with address 0, starting with a suspension and ending with
  a resumption; the first poll reports nothing. The station is marked dead, and all of it is a sequence of the
  steps for which the harvest is shown to be untorn.\<close>

theorem traced_future_events:
  assumes "ready_probe s" "\<not> pt_pending s" "\<not> pt_dead s" "\<forall>d \<in> set cs. pc_result d = Pending" "pc_result c = Ready"
  shows "rust_step\<^sup>*\<^sup>* s (fold poll (cs @ [c]) s) \<and>
    Slots (pr_station (fold poll (cs @ [c]) s)) = Slots (pr_station (write_all (future_events cs c) s)) \<and>
    IsDead (Header (pr_station (fold poll (cs @ [c]) s))) \<and>
    map p_active (future_events cs c) = concat (replicate (length cs) [False, True]) \<and>
    map p_addr (future_events cs c) = concat (map (\<lambda>d. [pc_addr d, 0]) cs)"
proof -
  let ?s = "write_all (pending_events False cs) s"
  have "fold poll (cs @ [c]) s = poll c (?s\<lparr>pt_pending := cs \<noteq> []\<rparr>)"
    using polls_pending [OF assms(4), of s] assms(2) by simp
  also have "\<dots> = mark_dead ((write_all (future_events cs c) s)\<lparr>pt_pending := False\<rparr>)"
    using assms(5) by (simp add: poll_def on_resume_def future_events_def write_all_append write_trace_pending Let_def)
  finally have f: "fold poll (cs @ [c]) s = mark_dead ((write_all (future_events cs c) s)\<lparr>pt_pending := False\<rparr>)" .
  have "rust_step\<^sup>*\<^sup>* s (fold poll (cs @ [c]) s)" using polls_steps [OF assms(1)] by blast
  then show ?thesis
    unfolding f using assms(3) by (simp add: mark_dead_def set_header_def future_events_flags future_events_addrs)
qed

theorem traced_future_events_witness:
  "let c = \<lparr>pc_result = Pending, pc_addr = 64, pc_resumed = (1, 10), pc_suspended = (1, 11)\<rparr>
   in map p_addr (future_events [c, c] (c\<lparr>pc_result := Ready\<rparr>)) = [64, 0, 64, 0] \<and>
      IsDead (Header (pr_station (fold poll [c, c, c\<lparr>pc_result := Ready\<rparr>] rust_born)))"
proof -
  let ?c = "\<lparr>pc_result = Pending, pc_addr = 64, pc_resumed = (1, 10), pc_suspended = (1, 11)\<rparr>"
  have "ready_probe rust_born" "\<not> pt_pending rust_born" "\<not> pt_dead rust_born"
    by (simp_all add: ready_probe_def rust_born_def rust_init_def set_header_def)
  from traced_future_events [OF this, of "[?c, ?c]" "?c\<lparr>pc_result := Ready\<rparr>"] show ?thesis by simp
qed

end
