(* ===== verification/Attach.thy ===== *)
theory Attach
  imports Engine
begin

text \<open>
  How a traced process attaches: \<^verbatim>\<open>InitTracer\<close> of \<^verbatim>\<open>SDK/c++/coroTracer.h\<close> and \<^verbatim>\<open>attach_from_env\<close> of \<^verbatim>\<open>SDK/rust/src/lib.rs\<close>. Both read the
  three environment variables the launcher sets, compute the size of the mapping, map the file and connect the
  socket. The size is compared with the file the engine created: every station the allocator can hand out
  has to lie in the mapping.
\<close>

section \<open>The world of the process\<close>

text \<open>The environment variables, whether the file opens, whether a mapping of a given size succeeds, and whether the
  socket connects.\<close>

record attach_env =
  at_shm :: "string option"
  at_sock :: "string option"
  at_max :: "string option"
  at_open :: bool
  at_mmap :: "u64 \<Rightarrow> bool"
  at_connect :: bool

datatype attach_error = MissingEnv | InvalidStationCount string | Overflow | OpenShm | Mmap

text \<open>Attached with a mapping of so many bytes and a socket or none; otherwise the process runs untraced.\<close>

datatype attach_state = Attached u64 bool | Untraced attach_error

section \<open>The C++ kit\<close>

text \<open>\<^verbatim>\<open>std::atoi\<close> as the C libraries implement it: \<^verbatim>\<open>strtol\<close>, which saturates at 64 bits, cut to an \<^verbatim>\<open>int\<close>.\<close>

definition strtol :: "string \<Rightarrow> int" where
  "strtol s =
     (let s = dropWhile (\<lambda>c. c \<in> set [CHR 0x20, CHR 0x09, CHR 0x0A, CHR 0x0B, CHR 0x0C, CHR 0x0D]) s;
          minus = (take 1 s = ''-'');
          digits = takeWhile is_digit (if minus \<or> take 1 s = ''+'' then drop 1 s else s);
          v = (if minus then - int (dec_val digits) else int (dec_val digits))
      in max (- (2 ^ 63)) (min (2 ^ 63 - 1) v))"

definition atoi :: "string \<Rightarrow> 32 word" where
  "atoi s = word_of_int (strtol s)"

text \<open>The size is computed in \<^verbatim>\<open>int\<close>, which wraps (the standard leaves it undefined), and then widened.\<close>

definition cpp_mem_size :: "string \<Rightarrow> u64" where
  "cpp_mem_size max_stations_str =
     (let max_stations = atoi max_stations_str in scast (1024 + max_stations * 1024 :: 32 word))"

definition InitTracer :: "attach_env \<Rightarrow> attach_state" where
  "InitTracer env =
     (case (at_shm env, at_sock env, at_max env) of
        (Some shm_path, Some sock_path, Some max_stations_str) \<Rightarrow>
          (let mem_size = cpp_mem_size max_stations_str
           in if \<not> at_open env then Untraced OpenShm
              else if \<not> at_mmap env mem_size then Untraced Mmap
              else Attached mem_size (at_connect env))
      | _ \<Rightarrow> Untraced MissingEnv)"

section \<open>The Rust kit\<close>

text \<open>\<^verbatim>\<open>parse::<usize>\<close>: an optional plus sign and digits, below \<open>2 ^ 64\<close>.\<close>

definition parse_usize :: "string \<Rightarrow> nat option" where
  "parse_usize s =
     (let digits = (if take 1 s = ''+'' then drop 1 s else s)
      in if digits \<noteq> [] \<and> list_all is_digit digits \<and> dec_val digits < 2 ^ 64 then Some (dec_val digits) else None)"

definition attach_from_env :: "attach_env \<Rightarrow> attach_state" where
  "attach_from_env env =
     (case (at_shm env, at_sock env, at_max env) of
        (Some shm_path, Some sock_path, Some max_stations) \<Rightarrow>
          (case parse_usize max_stations of
             None \<Rightarrow> Untraced (InvalidStationCount max_stations)
           | Some n \<Rightarrow>
               if 2 ^ 64 \<le> n * 1024 then Untraced Overflow
               else if 2 ^ 64 \<le> 1024 + n * 1024 then Untraced Overflow
               else if \<not> at_open env then Untraced OpenShm
               else if \<not> at_mmap env (word_of_nat (1024 + n * 1024)) then Untraced Mmap
               else Attached (word_of_nat (1024 + n * 1024)) (at_connect env))
      | _ \<Rightarrow> Untraced MissingEnv)"

section \<open>The number the launcher passes\<close>

lemma strtol_Format: "unat n < 2 ^ 63 \<Longrightarrow> strtol (FormatUint n) = int (unat n)"
proof -
  assume n: "unat n < 2 ^ 63"
  obtain c cs where c: "FormatUint n = c # cs" by (cases "FormatUint n") auto
  with FormatUint_digits [of n] have d: "is_digit c" "list_all is_digit (c # cs)" by (simp_all add: list_all_iff)
  then have "c \<notin> set [CHR 0x20, CHR 0x09, CHR 0x0A, CHR 0x0B, CHR 0x0C, CHR 0x0D]" "c \<noteq> CHR ''-''" "c \<noteq> CHR ''+''"
    by (auto simp: is_digit_def)
  moreover have "takeWhile is_digit (c # cs) = c # cs" using d(2) by (simp add: takeWhile_eq_all_conv list_all_iff)
  moreover have "dec_val (c # cs) = unat n" using c dec_val_dec [of "unat n"] by (simp add: FormatUint_def)
  moreover have "int (unat n) < int (2 ^ 63)" using n by (simp only: of_nat_less_iff)
  then have "uint n < 9223372036854775808" by simp
  moreover have "max (- 9223372036854775808) (uint n) = uint n"
    using unsigned_greater_eq [of n, where 'a = int] by linarith
  ultimately show ?thesis by (simp add: strtol_def c Let_def)
qed

lemma parse_usize_Format: "parse_usize (FormatUint n) = Some (unat n)"
proof -
  obtain c cs where c: "FormatUint n = c # cs" by (cases "FormatUint n") auto
  with FormatUint_digits [of n] have d: "is_digit c" "list_all is_digit (c # cs)" by (simp_all add: list_all_iff)
  then have "c \<noteq> CHR ''+''" by (auto simp: is_digit_def)
  moreover have "dec_val (c # cs) = unat n" using c dec_val_dec [of "unat n"] by (simp add: FormatUint_def)
  ultimately show ?thesis using d(2) by (simp add: parse_usize_def c Let_def)
qed

lemma cpp_mem_size_wraps:
  assumes "unat n < 2 ^ 63"
  shows "cpp_mem_size (FormatUint n) = scast (word_of_nat (1024 + 1024 * unat n) :: 32 word)"
  by (simp add: cpp_mem_size_def atoi_def strtol_Format [OF assms] Let_def mult.commute)

lemma scast_small:
  assumes "k < 2 ^ 31"
  shows "scast (word_of_nat k :: 32 word) = (word_of_nat k :: u64)"
proof -
  have "int k < int (2 ^ 31)" using assms by (simp only: of_nat_less_iff)
  then have "signed_take_bit 31 (int k) = int k" by (intro signed_take_bit_int_eq_self) simp_all
  then show ?thesis by (simp add: signed_of_nat)
qed

lemma cpp_mem_size_Format:
  assumes "unat n \<le> 2097150"
  shows "cpp_mem_size (FormatUint n) = word_of_nat (1024 + 1024 * unat n)"
  using assms by (subst cpp_mem_size_wraps) (simp_all add: scast_small del: of_nat_add of_nat_mult)

text \<open>Whether station \<open>idx\<close> lies in a mapping.\<close>

definition station_mapped :: "u64 \<Rightarrow> nat \<Rightarrow> bool" where
  "station_mapped len idx \<longleftrightarrow> station_off idx + StationSize \<le> unat len"

lemma InitTracer_Attached:
  assumes "at_max env = Some (FormatUint n)" "InitTracer env = Attached len c"
  shows "len = cpp_mem_size (FormatUint n)"
  using assms by (auto simp: InitTracer_def Let_def split: option.splits if_splits)

lemma attach_from_env_Attached:
  assumes "at_max env = Some (FormatUint n)" "attach_from_env env = Attached len c"
  shows "unat len = 1024 + 1024 * unat n"
proof -
  have len: "1024 + unat n * 1024 < 2 ^ 64" "len = word_of_nat (1024 + unat n * 1024)"
    using assms by (auto simp: attach_from_env_def parse_usize_Format split: option.splits if_splits)
  then have "unat len = 1024 + unat n * 1024" by (simp add: unat_of_nat del: of_nat_add of_nat_mult)
  then show ?thesis by simp
qed

text \<open>C34: Whoever attaches to an engine for \<^verbatim>\<open>-n\<close> stations must be able to write every station the allocator hands out (indices
  below the 32-bit station count). The Rust kit always can, because it checks the size. The C++ kit can for up to 2097150
  stations and then maps exactly the engine's file; its size is an \<^verbatim>\<open>int\<close>, and for 4194304 stations it
  wraps to 1024: the process attaches with a mapping that holds no station at all.\<close>

theorem attach_covers_stations:
  assumes "at_max env = Some (FormatUint n)"
  shows "(\<forall>len c idx. attach_from_env env = Attached len c \<and> idx < unat (ucast n :: u32) \<longrightarrow> station_mapped len idx) \<and>
    (\<forall>len c idx. InitTracer env = Attached len c \<and> unat n \<le> 2097150 \<and> idx < unat (ucast n :: u32) \<longrightarrow>
       station_mapped len idx \<and> unat len = HeaderSize + unat n * StationSize) \<and>
    (\<forall>len c. InitTracer env = Attached len c \<and> n = 4194304 \<longrightarrow> len = 1024 \<and> \<not> station_mapped len 0)"
proof -
  have u: "unat (ucast n :: u32) \<le> unat n" by (simp add: unsigned_ucast_eq take_bit_eq_mod)
  have covers: "station_mapped len idx" if "unat len = 1024 + 1024 * unat n" "idx < unat (ucast n :: u32)" for len idx
    using that u by (simp add: station_mapped_def station_off_def StationSize_def)
  have small: "unat len = 1024 + 1024 * unat n" if "InitTracer env = Attached len c" "unat n \<le> 2097150" for len c
  proof -
    have "len = word_of_nat (1024 + 1024 * unat n)"
      using InitTracer_Attached [OF assms that(1)] cpp_mem_size_Format [OF that(2)] by simp
    moreover have "1024 + 1024 * unat n < 2 ^ 64" using that(2) by simp
    ultimately show ?thesis by (simp add: unat_of_nat del: of_nat_add of_nat_mult)
  qed
  have wrap: "len = 1024" if "InitTracer env = Attached len c" "n = 4194304" for len c
    using InitTracer_Attached [OF assms that(1)] cpp_mem_size_wraps [of n] that(2) by simp
  show ?thesis
    using covers attach_from_env_Attached [OF assms] small wrap
    by (auto simp: HeaderSize_def StationSize_def station_mapped_def station_off_def)
qed

definition demo_attach :: "u64 \<Rightarrow> attach_env" where
  "demo_attach n =
     \<lparr>at_shm = Some ''/tmp/s'', at_sock = Some ''/tmp/u'', at_max = Some (FormatUint n), at_open = True,
      at_mmap = (\<lambda>_. True), at_connect = True\<rparr>"

theorem attach_covers_stations_witness:
  "(\<exists>len. InitTracer (demo_attach 128) = Attached len True \<and> station_mapped len 127) \<and>
   InitTracer (demo_attach 4194304) = Attached 1024 True \<and> \<not> station_mapped 1024 0"
proof -
  have a: "InitTracer (demo_attach n) = Attached (cpp_mem_size (FormatUint n)) True" for n
    by (simp add: InitTracer_def demo_attach_def)
  have "at_max (demo_attach n) = Some (FormatUint n)" for n by (simp add: demo_attach_def)
  from attach_covers_stations [OF this [of 128]] attach_covers_stations [OF this [of 4194304]] a [of 128] a [of 4194304]
  show ?thesis by auto
qed

end
