(* ===== verification/Traced_Program.thy ===== *)
theory Traced_Program
  imports Probe_Harvest
begin

text \<open>
  The traced program as a whole, with the store buffers of the processor: any number of probes of one
  kit, each writing its own station, all sharing \<^verbatim>\<open>AllocatedCount\<close>, \<^verbatim>\<open>TracerSleeping\<close> and the socket. A store of a
  probe first enters a buffer and reaches the shared memory later, in order (total store order, as on
  x86); an atomic read-modify-write acts on the memory at once, and the fence of \<^verbatim>\<open>write_trace\<close> waits until the
  buffer is empty. The tracer is the engine of theory \<open>Engine\<close>, reading this memory.
\<close>

section \<open>State and steps\<close>

text \<open>Where a probe is in the second half of \<^verbatim>\<open>write_trace\<close>: not there, before the fence, before the load of
  \<^verbatim>\<open>tracer_sleeping\<close>, before the compare-and-swap, before the write to the socket.\<close>

datatype wake_pc = NotWaking | AtFence | AtLoad | AtSwap | AtSend

text \<open>A probe with its buffer: the state whose station the shared memory shows, and the states after each
  store that is still buffered.\<close>

record 'q writer =
  w_mem :: 'q
  w_pending :: "'q list"
  w_pc :: wake_pc

definition w_view :: "'q writer \<Rightarrow> 'q" where
  "w_view w = last (w_mem w # w_pending w)"

text \<open>The shared header, the probes, and the unread bytes of the socket. The last two fields are a record of the
  history: how often 1 was stored to \<^verbatim>\<open>TracerSleeping\<close>, and how many bytes were ever put into the socket.\<close>

record 'q tracee =
  tp_header :: GlobalHeader
  tp_writers :: "'q writer list"
  tp_bytes :: nat
  tp_sleeps :: nat
  tp_sent :: nat

definition tp_shm :: "'a probe_scheme tracee \<Rightarrow> shm" where
  "tp_shm s = \<lparr>sh_header = tp_header s, sh_stations = map (\<lambda>w. pr_station (w_mem w)) (tp_writers s)\<rparr>"

text \<open>The steps of one probe on its own. A call that unlocks its slot goes on to the fence.\<close>

definition unlocks :: "'a probe_scheme \<Rightarrow> 'a probe_scheme \<Rightarrow> bool" where
  "unlocks q q' \<longleftrightarrow> pr_stage q \<noteq> None \<and> pr_stage q' = None"

inductive buffer_step :: "('a probe_scheme \<Rightarrow> 'a probe_scheme \<Rightarrow> bool) \<Rightarrow> 'a probe_scheme writer \<Rightarrow> 'a probe_scheme writer \<Rightarrow> bool"
  for step where
  call: "w_pc w = NotWaking \<Longrightarrow> step (w_view w) q \<Longrightarrow> \<not> unlocks (w_view w) q \<Longrightarrow>
     buffer_step step w (w\<lparr>w_pending := w_pending w @ [q]\<rparr>)"
| unlock: "w_pc w = NotWaking \<Longrightarrow> step (w_view w) q \<Longrightarrow> unlocks (w_view w) q \<Longrightarrow>
     buffer_step step w (w\<lparr>w_pending := w_pending w @ [q], w_pc := AtFence\<rparr>)"
| drain: "w_pending w = q # qs \<Longrightarrow> buffer_step step w (w\<lparr>w_mem := q, w_pending := qs\<rparr>)"
| fence: "w_pc w = AtFence \<Longrightarrow> w_pending w = [] \<Longrightarrow> buffer_step step w (w\<lparr>w_pc := AtLoad\<rparr>)"

definition set_pc :: "nat \<Rightarrow> wake_pc \<Rightarrow> 'q tracee \<Rightarrow> 'q tracee" where
  "set_pc i pc s = s\<lparr>tp_writers := (tp_writers s)[i := (tp_writers s ! i)\<lparr>w_pc := pc\<rparr>]\<rparr>"

definition pc_at :: "'q tracee \<Rightarrow> nat \<Rightarrow> wake_pc \<Rightarrow> bool" where
  "pc_at s i pc \<longleftrightarrow> i < length (tp_writers s) \<and> w_pc (tp_writers s ! i) = pc"

definition store_sleeping :: "u32 \<Rightarrow> 'q tracee \<Rightarrow> 'q tracee" where
  "store_sleeping v s =
     s\<lparr>tp_header := (tp_header s)\<lparr>TracerSleeping := v\<rparr>, tp_sleeps := tp_sleeps s + of_bool (v = 1)\<rparr>"

text \<open>The steps of the traced program. A probe is constructed on a station below \<^verbatim>\<open>AllocatedCount\<close>; the
  counter is taken below its wrap-around at \<open>2 ^ 32\<close> probes. The socket is connected and does not block: a write to a full
  socket is dropped, which it is only while bytes are waiting.\<close>

inductive tp_step :: "('a probe_scheme \<Rightarrow> 'a probe_scheme \<Rightarrow> bool) \<Rightarrow> 'a probe_scheme tracee \<Rightarrow> 'a probe_scheme tracee \<Rightarrow> bool"
  for step where
  own: "i < length (tp_writers s) \<Longrightarrow> buffer_step step (tp_writers s ! i) w \<Longrightarrow>
     (pr_born (w_view w) \<longrightarrow> i < unat (AllocatedCount (tp_header s))) \<Longrightarrow>
     tp_step step s (s\<lparr>tp_writers := (tp_writers s)[i := w]\<rparr>)"
| alloc: "unat (AllocatedCount (tp_header s)) + 1 < 2 ^ 32 \<Longrightarrow>
     tp_step step s (s\<lparr>tp_header := fst (probe_alloc (tp_header s))\<rparr>)"
| load_awake: "pc_at s i AtLoad \<Longrightarrow> TracerSleeping (tp_header s) \<noteq> 1 \<Longrightarrow> tp_step step s (set_pc i NotWaking s)"
| load_sleeping: "pc_at s i AtLoad \<Longrightarrow> TracerSleeping (tp_header s) = 1 \<Longrightarrow> tp_step step s (set_pc i AtSwap s)"
| swap_lost: "pc_at s i AtSwap \<Longrightarrow> TracerSleeping (tp_header s) \<noteq> 1 \<Longrightarrow> tp_step step s (set_pc i NotWaking s)"
| swap_won: "pc_at s i AtSwap \<Longrightarrow> TracerSleeping (tp_header s) = 1 \<Longrightarrow>
     tp_step step s (store_sleeping 0 (set_pc i AtSend s))"
| send: "pc_at s i AtSend \<Longrightarrow> tp_step step s ((set_pc i NotWaking s)\<lparr>tp_bytes := tp_bytes s + 1, tp_sent := tp_sent s + 1\<rparr>)"
| send_full: "pc_at s i AtSend \<Longrightarrow> 0 < tp_bytes s \<Longrightarrow> tp_step step s (set_pc i NotWaking s)"

section \<open>The sleeping tracer\<close>

text \<open>A round of \<^verbatim>\<open>hotHarvestLoop\<close> that gets to \<^verbatim>\<open>conn.Read\<close>: both scans find nothing. The result is the time of the
  store of 1, the time of the read, and the engine then.\<close>

definition hot_wait :: "shm_run \<Rightarrow> nat \<Rightarrow> TracerEngine \<Rightarrow> (nat \<times> nat \<times> TracerEngine) option" where
  "hot_wait mem t e =
     (case doScan mem t e of (t1, e1, harvested) \<Rightarrow>
        if harvested > 0 then None
        else case doScan mem (t1 + 1) (eng_Flush e1) of (t3, e3, again) \<Rightarrow>
               if again > 0 then None else Some (t1, t3, e3))"

lemma hot_wait_loop:
  "hot_wait mem t e = Some (t1, t3, e3) \<Longrightarrow> reads k = ReadTimeout \<Longrightarrow>
   hotHarvestLoop (Suc fuel) mem reads t k e stores =
     hotHarvestLoop fuel mem reads (t3 + 1) (k + 1) e3 (stores @ [(t1, 1)])"
  by (auto simp: hot_wait_def hotHarvestLoop.simps(2) split: prod.splits if_splits)

text \<open>From the store of 1 at time \<open>t1\<close> to the read at time \<open>t3\<close> only the traced program changes the memory and the socket.\<close>

definition asleep :: "('a probe_scheme \<Rightarrow> 'a probe_scheme \<Rightarrow> bool) \<Rightarrow> (nat \<Rightarrow> 'a probe_scheme tracee) \<Rightarrow> nat \<Rightarrow> nat \<Rightarrow> bool" where
  "asleep step run t1 t3 \<longleftrightarrow>
     (tp_step step)\<^sup>*\<^sup>* (store_sleeping 1 (run t1)) (run (t1 + 1)) \<and>
     (\<forall>u \<in> {t1 + 1..<t3}. (tp_step step)\<^sup>*\<^sup>* (run u) (run (u + 1)))"

text \<open>A run of the whole system gives its state at every tick of the engine. At a tick the engine may store to the
  flag or take bytes from the socket; between two ticks the traced program makes any number of steps.\<close>

inductive engine_act :: "'q tracee \<Rightarrow> 'q tracee \<Rightarrow> bool" where
  loads: "engine_act s s"
| stores: "v = 0 \<or> v = 1 \<Longrightarrow> engine_act s (store_sleeping v s)"
| takes: "n \<le> tp_bytes s \<Longrightarrow> n \<le> 1024 \<Longrightarrow> engine_act s (s\<lparr>tp_bytes := tp_bytes s - n\<rparr>)"

definition traced_run :: "('a probe_scheme \<Rightarrow> 'a probe_scheme \<Rightarrow> bool) \<Rightarrow> (nat \<Rightarrow> 'a probe_scheme tracee) \<Rightarrow> bool" where
  "traced_run step run \<longleftrightarrow> (\<forall>u. \<exists>s. engine_act (run u) s \<and> (tp_step step)\<^sup>*\<^sup>* s (run (u + 1)))"

text \<open>Before the first probe is constructed: stations no probe has written, empty buffers, an empty socket.\<close>

definition tp_start :: "'a probe_scheme list \<Rightarrow> GlobalHeader \<Rightarrow> 'a probe_scheme tracee" where
  "tp_start qs h =
     \<lparr>tp_header = h, tp_writers = map (\<lambda>q. \<lparr>w_mem = q, w_pending = [], w_pc = NotWaking\<rparr>) qs, tp_bytes = 0,
      tp_sleeps = 0, tp_sent = 0\<rparr>"

section \<open>Invariants\<close>

text \<open>The memory trails behind a probe by steps of the probe, and an unlocking store is buffered only before the fence.\<close>

definition writer_inv :: "('a probe_scheme \<Rightarrow> 'a probe_scheme \<Rightarrow> bool) \<Rightarrow> 'a probe_scheme writer \<Rightarrow> bool" where
  "writer_inv step w \<longleftrightarrow>
     probe_inv (w_mem w) \<and> successively step (w_mem w # w_pending w) \<and>
     (w_pc w = NotWaking \<longrightarrow> successively (\<lambda>q q'. \<not> unlocks q q') (w_mem w # w_pending w)) \<and>
     (w_pc w \<noteq> NotWaking \<and> w_pc w \<noteq> AtFence \<longrightarrow> w_pending w = [])"

definition w_born :: "'a probe_scheme writer \<Rightarrow> bool" where
  "w_born w \<longleftrightarrow> (\<exists>q \<in> set (w_mem w # w_pending w). pr_born q)"

definition tp_inv :: "('a probe_scheme \<Rightarrow> 'a probe_scheme \<Rightarrow> bool) \<Rightarrow> 'a probe_scheme tracee \<Rightarrow> bool" where
  "tp_inv step s \<longleftrightarrow>
     (\<forall>i < length (tp_writers s). writer_inv step (tp_writers s ! i) \<and>
        (w_born (tp_writers s ! i) \<longrightarrow> i < unat (AllocatedCount (tp_header s))))"

text \<open>A byte is in the socket or on its way, or a probe will still look at the flag while it is up.\<close>

definition byte_sent :: "'q tracee \<Rightarrow> bool" where
  "byte_sent s \<longleftrightarrow> 0 < tp_bytes s \<or> (\<exists>i. pc_at s i AtSend)"

definition watching :: "'q tracee \<Rightarrow> nat \<Rightarrow> bool" where
  "watching s i \<longleftrightarrow> pc_at s i AtFence \<or> pc_at s i AtLoad \<or> pc_at s i AtSwap"

definition byte_coming :: "'q tracee \<Rightarrow> bool" where
  "byte_coming s \<longleftrightarrow> byte_sent s \<or>
     TracerSleeping (tp_header s) = 1 \<and> (\<exists>i. watching s i)"

definition flag_up :: "'q tracee \<Rightarrow> bool" where
  "flag_up s \<longleftrightarrow> TracerSleeping (tp_header s) = 1 \<or> byte_sent s"

lemma set_pc_fields [simp]:
  "tp_header (set_pc i pc s) = tp_header s" "tp_bytes (set_pc i pc s) = tp_bytes s"
  "tp_sleeps (set_pc i pc s) = tp_sleeps s" "tp_sent (set_pc i pc s) = tp_sent s"
  "length (tp_writers (set_pc i pc s)) = length (tp_writers s)"
  by (simp_all add: set_pc_def)

lemma set_pc_mem [simp]: "w_mem (tp_writers (set_pc i pc s) ! k) = w_mem (tp_writers s ! k)"
  by (cases "i < length (tp_writers s)") (auto simp: set_pc_def nth_list_update list_update_beyond)

lemma store_sleeping_fields [simp]:
  "TracerSleeping (tp_header (store_sleeping v s)) = v" "tp_bytes (store_sleeping v s) = tp_bytes s"
  "tp_sent (store_sleeping v s) = tp_sent s" "tp_sleeps (store_sleeping v s) = tp_sleeps s + of_bool (v = 1)"
  "tp_writers (store_sleeping v s) = tp_writers s"
  "AllocatedCount (tp_header (store_sleeping v s)) = AllocatedCount (tp_header s)"
  by (simp_all add: store_sleeping_def)

lemma pc_at_store [simp]: "pc_at (store_sleeping v s) i pc = pc_at s i pc"
  by (simp add: pc_at_def)

lemma pc_at_set: "pc_at s i old \<Longrightarrow> pc_at (set_pc i pc s) k pc' \<longleftrightarrow> (if k = i then pc' = pc else pc_at s k pc')"
  by (auto simp: pc_at_def set_pc_def)

lemma pc_at_more [simp]:
  "pc_at (s\<lparr>tp_bytes := n\<rparr>) i pc = pc_at s i pc" "pc_at (s\<lparr>tp_bytes := n, tp_sent := m\<rparr>) i pc = pc_at s i pc"
  "pc_at (s\<lparr>tp_header := h\<rparr>) i pc = pc_at s i pc"
  by (simp_all add: pc_at_def)

lemma pc_at_fun: "pc_at s i a \<Longrightarrow> pc_at s i b \<longleftrightarrow> a = b"
  by (auto simp: pc_at_def)

text \<open>Only its own fence moves a probe that waits to look at the flag.\<close>

lemma buffer_step_pc:
  "buffer_step step w w' \<Longrightarrow>
   w_pc w' = w_pc w \<or> w_pc w = NotWaking \<and> w_pc w' = AtFence \<or> w_pc w = AtFence \<and> w_pc w' = AtLoad"
  by (induction rule: buffer_step.induct) auto

lemma pc_at_own:
  assumes "i < length (tp_writers s)"
  shows "pc_at (s\<lparr>tp_writers := (tp_writers s)[i := w]\<rparr>) k pc \<longleftrightarrow> (if k = i then w_pc w = pc else pc_at s k pc)"
  using assms by (auto simp: pc_at_def)

lemmas wake_defs = byte_sent_def byte_coming_def flag_up_def

lemma own_wake:
  assumes "i < length (tp_writers s)" "buffer_step step (tp_writers s ! i) w"
  shows "byte_sent (s\<lparr>tp_writers := (tp_writers s)[i := w]\<rparr>) = byte_sent s"
    "byte_coming s \<Longrightarrow> byte_coming (s\<lparr>tp_writers := (tp_writers s)[i := w]\<rparr>)"
proof -
  let ?s = "s\<lparr>tp_writers := (tp_writers s)[i := w]\<rparr>"
  note pc = buffer_step_pc [OF assms(2)] pc_at_own [OF assms(1), of w]
  have old: "pc_at s i (w_pc (tp_writers s ! i))" using assms(1) by (simp add: pc_at_def)
  have "pc_at ?s k AtSend = pc_at s k AtSend" for k
    using pc old by (cases "k = i") (auto simp: pc_at_fun [OF old])
  then show sent: "byte_sent ?s = byte_sent s" by (simp add: byte_sent_def)
  have "watching s k \<Longrightarrow> watching ?s k" for k
    using pc old by (cases "k = i") (auto simp: watching_def pc_at_fun [OF old])
  then show "byte_coming s \<Longrightarrow> byte_coming ?s"
    unfolding byte_coming_def sent by auto
qed

lemma byte_sent_set:
  "pc_at s i old \<Longrightarrow> old \<noteq> AtSend \<Longrightarrow> byte_sent s \<Longrightarrow> byte_sent (set_pc i pc s)"
  by (auto simp: byte_sent_def pc_at_set) (metis pc_at_fun)

lemma flag_up_step: "tp_step step s s' \<Longrightarrow> flag_up s \<Longrightarrow> flag_up s'"
proof (induction rule: tp_step.induct)
  case (own i s w)
  with own_wake(1) [OF own(1,2)] show ?case by (simp add: flag_up_def)
next
  case (swap_won s i)
  then show ?case by (auto simp: flag_up_def byte_sent_def pc_at_set)
next
  case (load_awake s i)
  then show ?case using byte_sent_set [OF load_awake(1)] by (auto simp: flag_up_def)
next
  case (swap_lost s i)
  then show ?case using byte_sent_set [OF swap_lost(1)] by (auto simp: flag_up_def)
next
  case (send s i)
  then show ?case by (simp add: flag_up_def byte_sent_def)
qed (auto simp: wake_defs pc_at_set probe_alloc_def Let_def pc_at_fun)

lemma byte_coming_step: "tp_step step s s' \<Longrightarrow> flag_up s \<Longrightarrow> byte_coming s \<Longrightarrow> byte_coming s'"
proof (induction rule: tp_step.induct)
  case (own i s w)
  with own_wake(2) [OF own(1,2)] show ?case by simp
next
  case (alloc s)
  then show ?case by (simp add: wake_defs watching_def probe_alloc_def Let_def)
next
  case (load_awake s i)
  then show ?case using byte_sent_set [OF load_awake(1)] by (auto simp: byte_coming_def flag_up_def)
next
  case (load_sleeping s i)
  then show ?case using pc_at_set [OF load_sleeping(1)] by (auto simp: byte_coming_def watching_def)
next
  case (swap_lost s i)
  then show ?case using byte_sent_set [OF swap_lost(1)] by (auto simp: byte_coming_def flag_up_def)
next
  case (swap_won s i)
  then show ?case by (auto simp: wake_defs pc_at_set)
qed (auto simp: byte_coming_def byte_sent_def)

section \<open>The memory trails behind the probes\<close>

lemma writer_inv_step:
  assumes "buffer_step step w w'" "writer_inv step w" "\<And>q q'. step q q' \<Longrightarrow> probe_inv q \<Longrightarrow> probe_inv q'"
  shows "writer_inv step w'"
  using assms
proof (induction rule: buffer_step.induct)
  case (call w q)
  then show ?case
    using successively_append_iff [of _ "w_mem w # w_pending w" "[q]"] by (simp add: writer_inv_def w_view_def)
next
  case (unlock w q)
  then show ?case
    using successively_append_iff [of _ "w_mem w # w_pending w" "[q]"] by (simp add: writer_inv_def w_view_def)
next
  case (drain w q qs)
  then show ?case by (auto simp: writer_inv_def)
qed (simp add: writer_inv_def)

lemma buffer_step_born: "buffer_step step w w' \<Longrightarrow> w_born w' \<Longrightarrow> w_born w \<or> pr_born (w_view w')"
  by (induction rule: buffer_step.induct) (auto simp: w_view_def w_born_def)

lemma writer_inv_pc:
  "writer_inv step w \<Longrightarrow> w_pc w \<noteq> NotWaking \<Longrightarrow> w_pc w \<noteq> AtFence \<Longrightarrow> pc = NotWaking \<or> pc = AtSwap \<or> pc = AtSend \<Longrightarrow>
   writer_inv step (w\<lparr>w_pc := pc\<rparr>)"
  by (auto simp: writer_inv_def)

lemma tp_inv_update:
  assumes "tp_inv step s" "i < length (tp_writers s)" "writer_inv step w"
    "w_born w \<Longrightarrow> i < unat (AllocatedCount (tp_header s))"
  shows "tp_inv step (s\<lparr>tp_writers := (tp_writers s)[i := w]\<rparr>)"
  unfolding tp_inv_def
proof (intro allI impI)
  fix k
  assume "k < length (tp_writers (s\<lparr>tp_writers := (tp_writers s)[i := w]\<rparr>))"
  with assms show "writer_inv step (tp_writers (s\<lparr>tp_writers := (tp_writers s)[i := w]\<rparr>) ! k) \<and>
      (w_born (tp_writers (s\<lparr>tp_writers := (tp_writers s)[i := w]\<rparr>) ! k) \<longrightarrow>
       k < unat (AllocatedCount (tp_header (s\<lparr>tp_writers := (tp_writers s)[i := w]\<rparr>))))"
    by (cases "k = i") (simp_all add: tp_inv_def)
qed

lemma tp_inv_set_pc:
  assumes "tp_inv step s" "pc_at s i old" "old \<noteq> NotWaking" "old \<noteq> AtFence" "pc = NotWaking \<or> pc = AtSwap \<or> pc = AtSend"
  shows "tp_inv step (set_pc i pc s)"
  unfolding set_pc_def
  using assms writer_inv_pc [of step "tp_writers s ! i" pc]
  by (intro tp_inv_update) (auto simp: tp_inv_def pc_at_def w_born_def)

locale buffered_probe = seqlock_writer step pr_station pr_written pr_writing pr_id probe_inv
  for step :: "'a probe_scheme \<Rightarrow> 'a probe_scheme \<Rightarrow> bool" +
  assumes untouched: "probe_inv q \<Longrightarrow> step q q' \<Longrightarrow> j < 8 \<Longrightarrow> \<not> pr_writing q j \<Longrightarrow> \<not> pr_writing q' j \<Longrightarrow>
      Slots (pr_station q') ! j = Slots (pr_station q) ! j"
    and released: "probe_inv q \<Longrightarrow> step q q' \<Longrightarrow> pr_writing q j \<Longrightarrow> \<not> pr_writing q' j \<Longrightarrow> unlocks q q'"
begin

lemma tp_inv_step: "tp_step step s s' \<Longrightarrow> tp_inv step s \<Longrightarrow> tp_inv step s'"
proof (induction rule: tp_step.induct)
  case (own i s w)
  then have "writer_inv step (tp_writers s ! i)" by (simp add: tp_inv_def)
  from writer_inv_step [OF own(2) this] inv_step have "writer_inv step w" by blast
  with own buffer_step_born [OF own(2)] show ?case by (intro tp_inv_update) (auto simp: tp_inv_def)
next
  case (alloc s)
  have "unat (AllocatedCount (tp_header s) + 1) = unat (AllocatedCount (tp_header s)) + 1"
    using alloc(1) by (simp add: unat_word_ariths)
  with alloc show ?case by (simp add: tp_inv_def probe_alloc_def Let_def less_SucI)
next
  case (swap_won s i)
  then have "tp_inv step (set_pc i AtSend s)" by (intro tp_inv_set_pc) auto
  then show ?case by (simp add: tp_inv_def)
next
  case (send s i)
  then have "tp_inv step (set_pc i NotWaking s)" by (intro tp_inv_set_pc) auto
  then show ?case by (simp add: tp_inv_def)
qed (auto intro: tp_inv_set_pc)

lemma tp_length_step: "tp_step step s s' \<Longrightarrow> length (tp_writers s') = length (tp_writers s)"
  by (induction rule: tp_step.induct) auto

lemma even_quiet: "probe_inv q \<Longrightarrow> j < 8 \<Longrightarrow> even (unat (Seq (Slots (pr_station q) ! j))) \<longleftrightarrow> \<not> pr_writing q j"
  for q :: "'a probe_scheme"
  using seq_value [of q j] by (simp add: unat_of_nat even_iff_mod_2_eq_zero mod_mod_cancel of_bool_def del: of_nat_add)

text \<open>What the memory shows of a probe advances by steps of the probe.\<close>

lemma mem_step:
  assumes "tp_step step s s'" "tp_inv step s" "i < length (tp_writers s)"
  shows "step\<^sup>*\<^sup>* (w_mem (tp_writers s ! i)) (w_mem (tp_writers s' ! i))"
  using assms
proof (induction rule: tp_step.induct)
  case (own k s w)
  have "step\<^sup>*\<^sup>* (w_mem (tp_writers s ! k)) (w_mem w)"
    using own(2)
  proof (cases rule: buffer_step.cases)
    case (drain q qs)
    moreover have "writer_inv step (tp_writers s ! k)" using own by (simp add: tp_inv_def)
    ultimately show ?thesis by (auto simp: writer_inv_def)
  qed auto
  with own show ?case by (cases "i = k") auto
qed simp_all

lemma steps_inv:
  assumes "(tp_step step)\<^sup>*\<^sup>* s s'" "tp_inv step s"
  shows "tp_inv step s' \<and> length (tp_writers s') = length (tp_writers s) \<and>
    (i < length (tp_writers s) \<longrightarrow> step\<^sup>*\<^sup>* (w_mem (tp_writers s ! i)) (w_mem (tp_writers s' ! i)))"
  using assms
proof (induction rule: rtranclp_induct)
  case (step y z)
  then show ?case
    using tp_inv_step [OF step(2)] tp_length_step [OF step(2)] mem_step [OF step(2), of i] by (auto intro: rtranclp_trans)
qed simp

text \<open>A slot that is not locked in the memory is as it was, unless a byte is coming.\<close>

abbreviation mem_slot :: "'a probe_scheme tracee \<Rightarrow> nat \<Rightarrow> nat \<Rightarrow> Epoch" where
  "mem_slot s i j \<equiv> Slots (pr_station (w_mem (tp_writers s ! i))) ! j"

lemma drained_slot:
  assumes "writer_inv step w" "w_pending w = q # qs" "j < 8" "even (unat (Seq (Slots (pr_station q) ! j)))" "w_pc w \<noteq> AtFence"
  shows "Slots (pr_station q) ! j = Slots (pr_station (w_mem w)) ! j"
proof -
  have inv: "probe_inv (w_mem w)" "step (w_mem w) q" and pc: "w_pc w = NotWaking" "\<not> unlocks (w_mem w) q"
    using assms(1,2,5) by (auto simp: writer_inv_def)
  have "\<not> pr_writing q j" using even_quiet [OF inv_step [OF inv] assms(3)] assms(4) by simp
  moreover have "\<not> pr_writing (w_mem w) j" using released [OF inv] pc(2) calculation by blast
  ultimately show ?thesis using untouched [OF inv assms(3)] by blast
qed

lemma slot_step:
  assumes "tp_step step s s'" "tp_inv step s" "flag_up s" "\<not> byte_coming s'" "i < length (tp_writers s)" "j < 8"
    "even (unat (Seq (mem_slot s' i j)))"
  shows "mem_slot s' i j = mem_slot s i j"
  using assms
proof (induction rule: tp_step.induct)
  case (own k s w)
  let ?s = "s\<lparr>tp_writers := (tp_writers s)[k := w]\<rparr>"
  show ?case
  proof (cases "i = k")
    case True
    have inv: "writer_inv step (tp_writers s ! k)" using own by (simp add: tp_inv_def)
    have "flag_up ?s" using tp_step.own [OF own(1-3)] own.prems(2) by (rule flag_up_step)
    then have "\<not> watching ?s k" using own.prems(3) by (auto simp: flag_up_def byte_coming_def)
    then have pc: "w_pc w \<noteq> AtFence" using own(1) by (simp add: watching_def pc_at_def)
    have "Slots (pr_station (w_mem w)) ! j = Slots (pr_station (w_mem (tp_writers s ! k))) ! j"
      using own(2)
    proof (cases rule: buffer_step.cases)
      case (drain q qs)
      with drained_slot [OF inv drain(2) own.prems(5)] pc own(1) own.prems(6) True show ?thesis by simp
    qed auto
    with True own(1) show ?thesis by simp
  qed simp
qed simp_all

lemma steps_slot:
  assumes "(tp_step step)\<^sup>*\<^sup>* s s'" "tp_inv step s" "flag_up s"
  shows "tp_inv step s' \<and> flag_up s' \<and> length (tp_writers s') = length (tp_writers s) \<and>
    (byte_coming s \<longrightarrow> byte_coming s') \<and>
    (i < length (tp_writers s) \<longrightarrow> step\<^sup>*\<^sup>* (w_mem (tp_writers s ! i)) (w_mem (tp_writers s' ! i))) \<and>
    (\<not> byte_coming s' \<and> i < length (tp_writers s) \<and> j < 8 \<and> even (unat (Seq (mem_slot s' i j))) \<longrightarrow>
       mem_slot s' i j = mem_slot s i j)"
  using assms
proof (induction rule: rtranclp_induct)
  case (step y z)
  then have y: "tp_inv step y" "flag_up y" "length (tp_writers y) = length (tp_writers s)" by auto
  have z: "tp_inv step z" "flag_up z" "length (tp_writers z) = length (tp_writers s)"
    using tp_inv_step [OF step(2) y(1)] flag_up_step [OF step(2) y(2)] tp_length_step [OF step(2)] y(3) by auto
  have "byte_coming y \<Longrightarrow> byte_coming z" by (rule byte_coming_step [OF step(2) y(2)])
  moreover have "i < length (tp_writers s) \<Longrightarrow> step\<^sup>*\<^sup>* (w_mem (tp_writers y ! i)) (w_mem (tp_writers z ! i))"
    using mem_step [OF step(2) y(1)] y(3) by simp
  moreover have "\<not> byte_coming z \<Longrightarrow> i < length (tp_writers s) \<Longrightarrow> j < 8 \<Longrightarrow> even (unat (Seq (mem_slot z i j))) \<Longrightarrow>
      mem_slot z i j = mem_slot y i j"
    using slot_step [OF step(2) y(1,2)] y(3) by simp
  ultimately show ?case using step.IH step.prems z by (auto intro: rtranclp_trans)
qed simp

lemma asleep_steps:
  assumes "asleep step run t1 t3" "t1 < u" "u \<le> v" "v \<le> t3"
  shows "(tp_step step)\<^sup>*\<^sup>* (run u) (run v)"
  using assms(3,4)
proof (induction v rule: dec_induct)
  case (step n)
  then have "(tp_step step)\<^sup>*\<^sup>* (run n) (run (Suc n))" using assms(1,2) by (auto simp: asleep_def)
  with step show ?case by (auto intro: rtranclp_trans)
qed simp

text \<open>From the first state after the store to the read: the invariants hold.\<close>

lemma asleep_inv:
  assumes "asleep step run t1 t3" "tp_inv step (run t1)" "t1 < u" "u \<le> t3"
  shows "tp_inv step (run u) \<and> flag_up (run u) \<and> length (tp_writers (run u)) = length (tp_writers (run t1))"
proof -
  have "(tp_step step)\<^sup>*\<^sup>* (store_sleeping 1 (run t1)) (run (t1 + 1))" using assms(1) by (simp add: asleep_def)
  then have "(tp_step step)\<^sup>*\<^sup>* (store_sleeping 1 (run t1)) (run u)"
    using asleep_steps [OF assms(1) _ _ assms(4), of "t1 + 1"] assms(3) by (auto intro: rtranclp_trans)
  moreover have "tp_inv step (store_sleeping 1 (run t1))" using assms(2) by (simp add: tp_inv_def)
  moreover have "flag_up (store_sleeping 1 (run t1))" by (simp add: flag_up_def)
  ultimately show ?thesis using steps_slot by simp
qed

text \<open>A finished record in the memory while no byte is coming was there when the flag went up.\<close>

lemma asleep_slot:
  assumes "asleep step run t1 t3" "tp_inv step (run t1)" "t1 < u" "u \<le> t3" "\<not> byte_coming (run t3)"
    "i < length (tp_writers (run t1))" "j < 8" "even (unat (Seq (mem_slot (run t3) i j)))" "0 < Seq (mem_slot (run t3) i j)"
  shows "mem_slot (run u) i j = mem_slot (run t3) i j \<and>
    ProbeID (Header (pr_station (w_mem (tp_writers (run u) ! i)))) = pr_id (w_mem (tp_writers (run t3) ! i)) \<and>
    i < unat (AllocatedCount (tp_header (run u)))"
proof -
  let ?q = "\<lambda>u. w_mem (tp_writers (run u) ! i)"
  have inv: "tp_inv step (run u)" "flag_up (run u)" "i < length (tp_writers (run u))"
    using asleep_inv [OF assms(1-4)] assms(6) by auto
  note st = steps_slot [OF asleep_steps [OF assms(1,3,4) order_refl] inv(1,2), of i j]
  then have slot: "mem_slot (run u) i j = mem_slot (run t3) i j" and steps: "step\<^sup>*\<^sup>* (?q u) (?q t3)"
    using inv(3) assms(5-8) by auto
  have q: "probe_inv (?q u)" using inv(1,3) by (simp add: tp_inv_def writer_inv_def)
  have "\<not> pr_writing (?q u) j" using even_quiet [OF q assms(7)] slot assms(8) by simp
  with seq_value [OF q assms(7)] slot assms(9) have written: "pr_written (?q u) j \<noteq> []" by auto
  then have "pr_born (?q u)" using q by (auto simp: probe_inv_def)
  then have "i < unat (AllocatedCount (tp_header (run u)))" using inv(1,3) by (auto simp: tp_inv_def w_born_def)
  moreover have "ProbeID (Header (pr_station (?q u))) = pr_id (?q t3)"
    using probe_known [OF q written] steps_keep [OF steps q] by simp
  ultimately show ?thesis using slot by blast
qed

lemma wait_byte_coming:
  assumes "wf_engine e" "tp_inv step (run t1)" "length (tp_writers (run t1)) = unat (eng_maxStations e)"
    "hot_wait (\<lambda>u. tp_shm (run u)) t e = Some (t1, t3, e3)" "asleep step run t1 t3"
    "all_due (tp_shm (run t3)) e3 \<noteq> []"
  shows "byte_coming (run t3)"
proof (rule ccontr)
  assume none: "\<not> byte_coming (run t3)"
  let ?mem = "\<lambda>u. tp_shm (run u)"
  obtain e1 where s1: "doScan ?mem t e = (t1, e1, 0)" and s3: "doScan ?mem (t1 + 1) (eng_Flush e1) = (t3, e3, 0)"
    using assms(4) by (auto simp: hot_wait_def split: prod.splits if_splits)
  let ?e2 = "eng_Flush e1"
  have wf: "wf_engine ?e2" "eng_maxStations ?e2 = eng_maxStations e"
    using wf_doScan [OF assms(1) s1] wf_eng_Flush by (auto simp: eng_Flush_def)
  have e3: "e3 = scanned ?mem (t1 + 1) ?e2" using s3 by (simp add: scanned_def)
  have late: "t1 + 1 < t3" using doScan_later [OF s3] .
  obtain i j where "(i, j) \<in> set (all_due (?mem t3) e3)" using assms(6) last_in_set by (metis surj_pair)
  then have due: "i < unat (eng_maxStations e)" "j < 8" "slot_due (sh_stations (?mem t3) ! i) (eng_lastSeen e3 ! i) j"
    using scan_range_bound [of "\<lambda>_. ?mem t3" 0 ?e2] wf(2) by (auto simp: all_due_def due_slots_set e3)
  let ?s = "Slots (pr_station (w_mem (tp_writers (run t3) ! i))) ! j"
  have at: "sh_stations (?mem u) ! i = pr_station (w_mem (tp_writers (run u) ! i))" if "t1 < u" "u \<le> t3" for u
    using asleep_inv [OF assms(5,2) that] assms(3) due(1) by (simp add: tp_shm_def)
  have s: "eng_lastSeen e3 ! i ! j < Seq ?s" "even (unat (Seq ?s))"
    using due(3) at [of t3] late by (simp_all add: slot_due_def)
  have seen: "eng_lastSeen ?e2 ! i ! j < Seq ?s"
    using scanned_mono [OF wf(1), of i j ?mem "t1 + 1"] due(1,2) wf(2) s(1) e3 by simp
  have pos: "0 < Seq ?s" using seen by (rule le_less_trans [OF word_zero_le])
  let ?p = "pr_id (w_mem (tp_writers (run t3) ! i))"
  have same: "Slots (sh_stations (?mem u) ! i) ! j = ?s" "ProbeID (Header (sh_stations (?mem u) ! i)) = ?p"
      "i < unat (AllocatedCount (sh_header (?mem u)))" if "t1 < u" "u \<le> t3" for u
    using asleep_slot [OF assms(5,2) that none _ due(2) s(2) pos] at [OF that] due(1) assms(3) by (simp_all add: tp_shm_def)
  have stays: "slot_stays ?mem (t1 + 1 + 1) (fst (doScan ?mem (t1 + 1) ?e2)) i j ?p ?s"
    unfolding slot_stays_def s3 using same(1,2) by simp
  have "i < min (unat (eng_maxStations ?e2)) (unat (AllocatedCount (sh_header (?mem (t1 + 1)))))"
    using same(3) [of "t1 + 1"] late due(1) wf(2) by simp
  from doScan_finds_stable [OF wf(1) stays this due(2) seen s(2)]
  have "doScan_events ?mem (t1 + 1) ?e2 \<noteq> []" by auto
  with s3 show False by (simp add: doScan_eq)
qed

text \<open>Runs of the whole system.\<close>

lemma traced_run_step:
  assumes "traced_run step run" "tp_inv step (run u)"
  shows "tp_inv step (run (u + 1)) \<and> length (tp_writers (run (u + 1))) = length (tp_writers (run u)) \<and>
    (i < length (tp_writers (run u)) \<longrightarrow> step\<^sup>*\<^sup>* (w_mem (tp_writers (run u) ! i)) (w_mem (tp_writers (run (u + 1)) ! i)))"
proof -
  obtain s where s: "engine_act (run u) s" "(tp_step step)\<^sup>*\<^sup>* s (run (u + 1))" using assms(1) by (auto simp: traced_run_def)
  from s(1) have "tp_writers s = tp_writers (run u)" "AllocatedCount (tp_header s) = AllocatedCount (tp_header (run u))"
    by (auto elim: engine_act.cases)
  with steps_inv [OF s(2), of i] assms(2) show ?thesis by (simp add: tp_inv_def)
qed

lemma traced_run_inv:
  "traced_run step run \<Longrightarrow> tp_inv step (run 0) \<Longrightarrow>
   tp_inv step (run u) \<and> length (tp_writers (run u)) = length (tp_writers (run 0))"
  using traced_run_step by (induction u) auto

lemma traced_probe_run:
  assumes "traced_run step run" "tp_inv step (run 0)" "i < length (tp_writers (run 0))"
  shows "probe_run (\<lambda>u. w_mem (tp_writers (run u) ! i))"
  unfolding probe_run_def
proof (intro conjI allI)
  show "probe_inv (w_mem (tp_writers (run 0) ! i))" using assms(2,3) by (simp add: tp_inv_def writer_inv_def)
  show "step\<^sup>*\<^sup>* (w_mem (tp_writers (run u) ! i)) (w_mem (tp_writers (run (Suc u)) ! i))" for u
    using traced_run_inv [OF assms(1,2), of u] traced_run_step [OF assms(1), of u i] assms(3) by simp
qed

text \<open>Every record of any sequence of scans is one finished call of the probe that owns the station.\<close>

lemma scans_untorn:
  assumes "traced_run step run" "tp_inv step (run 0)" "length (tp_writers (run 0)) = unat (eng_maxStations e)" "wf_engine e"
    "\<And>u k. k < unat (eng_maxStations e) \<Longrightarrow> length (pr_written (w_mem (tp_writers (run u) ! k)) j) < 2 ^ 63"
    "((i, j), ev) \<in> set (scan_history (\<lambda>u. tp_shm (run u)) ts e)"
  shows "\<exists>u. let q = w_mem (tp_writers (run u) ! i) in
     pr_written q j \<noteq> [] \<and> event_payload ev = last (pr_written q j) \<and>
     unat (ev_seq ev) = 2 * length (pr_written q j) \<and> ev_probe ev = pr_id (w_mem (tp_writers (run 0) ! i))"
proof -
  obtain u l where r: "i < unat (eng_maxStations e)" "j < 8" "slot_read (\<lambda>u. sh_stations (tp_shm (run u)) ! i) u j l = Some ev"
    using scan_history_read [OF assms(4,6)] by blast
  let ?q = "\<lambda>u. w_mem (tp_writers (run u) ! i)"
  have "sh_stations (tp_shm (run u)) ! i = pr_station (?q u)" for u
    using traced_run_inv [OF assms(1,2), of u] assms(3) r(1) by (simp add: tp_shm_def)
  with r(3) have read: "slot_read (\<lambda>u. pr_station (?q u)) u j l = Some ev" by simp
  have run: "probe_run ?q" using traced_probe_run [OF assms(1,2)] assms(3) r(1) by simp
  have "phase (?q (u + 5)) j < 2 ^ 64" using assms(5) [OF r(1), of "u + 5"] by (simp add: phase_def)
  from slot_read_untorn [OF run r(2) this read] probe_run_keep [OF run, of 0 u] show ?thesis
    by (intro exI [of _ u]) (simp add: Let_def)
qed

text \<open>The outcome of a round that comes to \<^verbatim>\<open>conn.Read\<close>, in a run of the whole system.\<close>

lemma wait_outcome:
  assumes "wf_engine e" "tp_inv step (run 0)" "length (tp_writers (run 0)) = unat (eng_maxStations e)" "traced_run step run"
    "hot_wait (\<lambda>u. tp_shm (run u)) t e = Some (t1, t3, e3)" "asleep step run t1 t3"
  shows "(all_due (tp_shm (run t3)) e3 \<noteq> [] \<longrightarrow> byte_coming (run t3)) \<and>
    (reads k = ReadTimeout \<and> tp_bytes (run t3) = 0 \<and> (\<forall>i < unat (eng_maxStations e). pc_at (run t3) i NotWaking) \<longrightarrow>
       all_due (tp_shm (run t3)) e3 = [] \<and>
       hotHarvestLoop (Suc fuel) (\<lambda>u. tp_shm (run u)) reads t k e stores =
         hotHarvestLoop fuel (\<lambda>u. tp_shm (run u)) reads (t3 + 1) (k + 1) e3 (stores @ [(t1, 1)]))"
proof -
  have inv: "tp_inv step (run t1)" "length (tp_writers (run u)) = unat (eng_maxStations e)" for u
    using traced_run_inv [OF assms(4,2)] assms(3) by auto
  have "all_due (tp_shm (run t3)) e3 \<noteq> [] \<Longrightarrow> byte_coming (run t3)"
    using wait_byte_coming [OF assms(1) inv assms(5,6)] .
  moreover have "\<not> byte_coming (run t3)" if "tp_bytes (run t3) = 0" "\<forall>i < unat (eng_maxStations e). pc_at (run t3) i NotWaking"
    using that inv(2) [of t3] by (auto simp: byte_coming_def byte_sent_def watching_def pc_at_def)
  ultimately show ?thesis using hot_wait_loop [OF assms(5)] by blast
qed

end

section \<open>Both kits\<close>

lemma wt_store_other: "wt_store s s' \<Longrightarrow> j \<noteq> cur_slot s \<Longrightarrow> Slots (pr_station s') ! j = Slots (pr_station s) ! j"
  by (induction rule: wt_store.induct) auto

lemma wt_lock_slots: "j \<noteq> cur_slot s \<Longrightarrow> Slots (pr_station (wt_lock p s)) ! j = Slots (pr_station s) ! j"
  by (simp add: wt_lock_def Let_def)

lemma wt_unlock_slots: "j \<noteq> cur_slot s \<Longrightarrow> Slots (pr_station (wt_unlock p old s)) ! j = Slots (pr_station s) ! j"
  by (simp add: wt_unlock_def)

lemma wt_lock_writing: "pr_writing (wt_lock p s) j \<longleftrightarrow> j = cur_slot s"
  by (simp add: wt_lock_def Let_def pr_writing_def cur_slot_def)

lemma wt_store_writing: "wt_store s s' \<Longrightarrow> pr_writing s' j = pr_writing s j \<and> (pr_writing s j \<longleftrightarrow> j = cur_slot s)"
  using wt_store_keeps [of s s'] by (auto simp: pr_writing_def cur_slot_def)

lemma cpp_untouched:
  "cpp_step q q' \<Longrightarrow> \<not> pr_writing q j \<Longrightarrow> \<not> pr_writing q' j \<Longrightarrow> Slots (pr_station q') ! j = Slots (pr_station q) ! j"
proof (induction rule: cpp_step.induct)
  case (cpp_unlock s p old)
  then show ?case by (intro wt_unlock_slots) (simp add: pr_writing_def)
qed (auto simp: wt_lock_writing wt_lock_slots dest: wt_store_writing wt_store_other)

lemma cpp_released: "cpp_step q q' \<Longrightarrow> pr_writing q j \<Longrightarrow> \<not> pr_writing q' j \<Longrightarrow> probe_inv q \<Longrightarrow> unlocks q q'"
proof (induction rule: cpp_step.induct)
  case (cpp_unlock s p old)
  then show ?case by (simp add: unlocks_def wt_unlock_def)
qed (auto simp: pr_writing_def probe_inv_def cur_slot_def dest: wt_store_writing)

lemma rust_untouched:
  "rust_step q q' \<Longrightarrow> \<not> pr_writing q j \<Longrightarrow> \<not> pr_writing q' j \<Longrightarrow> Slots (pr_station q') ! j = Slots (pr_station q) ! j"
proof (induction rule: rust_step.induct)
  case (rust_unlock s p old)
  then show ?case using wt_unlock_slots [of j s p old] by (simp add: pr_writing_def)
qed (auto simp: wt_lock_writing wt_lock_slots dest: wt_store_writing wt_store_other)

lemma rust_released: "rust_step q q' \<Longrightarrow> pr_writing q j \<Longrightarrow> \<not> pr_writing q' j \<Longrightarrow> probe_inv q \<Longrightarrow> unlocks q q'"
proof (induction rule: rust_step.induct)
  case (rust_unlock s p old)
  then show ?case by (simp add: unlocks_def wt_unlock_def)
qed (auto simp: pr_writing_def probe_inv_def cur_slot_def dest: wt_store_writing)

interpretation cpp_buf: buffered_probe cpp_step
  by unfold_locales (auto intro: cpp_untouched cpp_released)

interpretation rust_buf: buffered_probe rust_step
  by unfold_locales (auto intro: rust_untouched rust_released)

lemma tp_inv_start:
  assumes "\<And>q. q \<in> set qs \<Longrightarrow> probe_inv q \<and> \<not> pr_born q"
  shows "tp_inv step (tp_start qs h)"
  using assms by (auto simp: tp_inv_def tp_start_def writer_inv_def w_born_def)

section \<open>One byte per sleep\<close>

definition winners :: "'q tracee \<Rightarrow> nat" where
  "winners s = count_list (map w_pc (tp_writers s)) AtSend"

lemma count_list_update:
  "i < length xs \<Longrightarrow> count_list (xs[i := y]) x + of_bool (xs ! i = x) = count_list xs x + of_bool (y = x)"
proof (induction xs arbitrary: i)
  case (Cons a xs)
  then show ?case by (cases i) (auto simp: less_Suc_eq_0_disj)
qed simp

lemma winners_update:
  "i < length (tp_writers s) \<Longrightarrow>
   winners (s\<lparr>tp_writers := (tp_writers s)[i := w]\<rparr>) + of_bool (w_pc (tp_writers s ! i) = AtSend) =
   winners s + of_bool (w_pc w = AtSend)"
  using count_list_update [of i "map w_pc (tp_writers s)" "w_pc w" AtSend] by (simp add: winners_def map_update)

lemma winners_set_pc:
  "pc_at s i old \<Longrightarrow> winners (set_pc i pc s) + of_bool (old = AtSend) = winners s + of_bool (pc = AtSend)"
  using winners_update [of i s "(tp_writers s ! i)\<lparr>w_pc := pc\<rparr>"] by (simp add: set_pc_def pc_at_def)

lemma winners_fields [simp]:
  "winners (s\<lparr>tp_header := h\<rparr>) = winners s" "winners (s\<lparr>tp_bytes := n\<rparr>) = winners s"
  "winners (s\<lparr>tp_bytes := n, tp_sent := m\<rparr>) = winners s" "winners (store_sleeping v s) = winners s"
  by (simp_all add: winners_def)

definition byte_inv :: "'q tracee \<Rightarrow> bool" where
  "byte_inv s \<longleftrightarrow> tp_bytes s \<le> tp_sent s \<and>
     tp_sent s + winners s + of_bool (TracerSleeping (tp_header s) = 1) \<le> tp_sleeps s"

lemma byte_inv_step: "tp_step step s s' \<Longrightarrow> byte_inv s \<Longrightarrow> byte_inv s'"
proof (induction rule: tp_step.induct)
  case (own i s w)
  then have "winners (s\<lparr>tp_writers := (tp_writers s)[i := w]\<rparr>) = winners s"
    using winners_update [OF own(1), of w] buffer_step_pc [OF own(2)] by auto
  with own show ?case by (simp add: byte_inv_def)
next
  case (alloc s)
  then show ?case by (simp add: byte_inv_def probe_alloc_def Let_def)
next
  case (load_awake s i)
  with winners_set_pc [OF load_awake(1), of NotWaking] show ?case by (simp add: byte_inv_def)
next
  case (load_sleeping s i)
  with winners_set_pc [OF load_sleeping(1), of AtSwap] show ?case by (simp add: byte_inv_def)
next
  case (swap_lost s i)
  with winners_set_pc [OF swap_lost(1), of NotWaking] show ?case by (simp add: byte_inv_def)
next
  case (swap_won s i)
  with winners_set_pc [OF swap_won(1), of AtSend] show ?case by (simp add: byte_inv_def)
next
  case (send s i)
  with winners_set_pc [OF send(1), of NotWaking] show ?case by (simp add: byte_inv_def)
next
  case (send_full s i)
  with winners_set_pc [OF send_full(1), of NotWaking] show ?case by (simp add: byte_inv_def)
qed

lemma byte_inv_act: "engine_act s s' \<Longrightarrow> byte_inv s \<Longrightarrow> byte_inv s'"
  by (induction rule: engine_act.induct) (auto simp: byte_inv_def)

lemma byte_inv_run: "traced_run step run \<Longrightarrow> byte_inv (run 0) \<Longrightarrow> byte_inv (run u)"
proof (induction u)
  case (Suc u)
  then obtain s where "engine_act (run u) s" "(tp_step step)\<^sup>*\<^sup>* s (run (Suc u))" by (auto simp: traced_run_def)
  moreover have "(tp_step step)\<^sup>*\<^sup>* a b \<Longrightarrow> byte_inv a \<Longrightarrow> byte_inv b" for a b
    by (induction rule: rtranclp_induct) (auto intro: byte_inv_step)
  ultimately show ?case using Suc byte_inv_act by blast
qed simp

end
