(* ===== verification/Traced_Runs.thy ===== *)
theory Traced_Runs
  imports Traced_Program
begin

text \<open>
  Properties of the whole system of theory \<open>Traced_Program\<close>, for the probes of either kit: what the engine logs, and
  that it never sleeps over a finished record. First a run of the system to apply them to.
\<close>

section \<open>A run\<close>

text \<open>Stores that reach the memory one by one, and a whole call of \<^verbatim>\<open>write_trace\<close> up to the fence.\<close>

abbreviation drained :: "'q \<Rightarrow> wake_pc \<Rightarrow> 'q writer" where
  "drained q pc \<equiv> \<lparr>w_mem = q, w_pending = [], w_pc = pc\<rparr>"

lemma writer_call:
  "st q q' \<Longrightarrow> (buffer_step st)\<^sup>*\<^sup>* (drained q NotWaking) (drained q' (if unlocks q q' then AtFence else NotWaking))"
  using call [of "drained q NotWaking" st q'] unlock [of "drained q NotWaking" st q']
    drain [of "\<lparr>w_mem = q, w_pending = [q'], w_pc = if unlocks q q' then AtFence else NotWaking\<rparr>" q' "[]" st]
  by (auto simp: w_view_def intro: converse_rtranclp_into_rtranclp)

lemma writer_calls:
  assumes "R\<^sup>*\<^sup>* q q'" "\<And>a b. R a b \<Longrightarrow> st a b \<and> \<not> unlocks a b"
  shows "(buffer_step st)\<^sup>*\<^sup>* (drained q NotWaking) (drained q' NotWaking)"
  using assms(1)
proof (induction rule: rtranclp_induct)
  case (step y z)
  have "(buffer_step st)\<^sup>*\<^sup>* (drained y NotWaking) (drained z NotWaking)"
    using writer_call [of st y z] assms(2) [OF step(2)] by simp
  with step(3) show ?case by (rule rtranclp_trans)
qed simp

lemma writer_write:
  assumes "st q (wt_lock p q)" "pr_stage q = None" "\<And>a b. wt_store a b \<Longrightarrow> st a b"
    "\<And>a old. pr_stage a = Some (ActiveDone, p, old) \<Longrightarrow> st a (fin (wt_unlock p old a))"
    "\<And>a. pr_stage (fin a) = pr_stage a"
  shows "(buffer_step st)\<^sup>*\<^sup>* (drained q NotWaking) (drained (fin (write_trace p q)) AtFence)"
proof -
  let ?old = "Seq (Slots (pr_station q) ! cur_slot q)"
  let ?l = "wt_lock p q"
  let ?d = "(wt_payload p ?l)\<lparr>pr_stage := Some (ActiveDone, p, ?old)\<rparr>"
  have "(buffer_step st)\<^sup>*\<^sup>* (drained q NotWaking) (drained ?l NotWaking)"
    using writer_call [of st, OF assms(1)] assms(2) by (simp add: unlocks_def)
  also have "wt_store\<^sup>*\<^sup>* ?l ?d" by (rule wt_stores_steps) (simp add: wt_lock_def Let_def)
  then have "(buffer_step st)\<^sup>*\<^sup>* (drained ?l NotWaking) (drained ?d NotWaking)"
    by (rule writer_calls) (auto simp: unlocks_def assms(3) dest: wt_store_keeps)
  also have "(buffer_step st)\<^sup>*\<^sup>* (drained ?d NotWaking) (drained (fin (wt_unlock p ?old ?d)) AtFence)"
    using writer_call [of st, OF assms(4) [of ?d ?old]] assms(5) by (simp add: unlocks_def wt_unlock_def)
  also have "wt_unlock p ?old ?d = write_trace p q"
    by (simp add: write_trace_def wt_unlock_def put_slot_def wt_payload_def cur_slot_def Let_def)
  finally show ?thesis .
qed

lemma own_steps:
  assumes "(buffer_step st)\<^sup>*\<^sup>* w w'" "tp_writers s = [w]" "0 < unat (AllocatedCount (tp_header s))"
  shows "(tp_step st)\<^sup>*\<^sup>* s (s\<lparr>tp_writers := [w']\<rparr>)"
  using assms(1)
proof (induction rule: rtranclp_induct)
  case base
  have "s\<lparr>tp_writers := [w]\<rparr> = s" using assms(2) by (cases s) simp
  then show ?case by simp
next
  case (step y z)
  have "tp_step st (s\<lparr>tp_writers := [y]\<rparr>) (s\<lparr>tp_writers := [z]\<rparr>)"
    using own [of 0 "s\<lparr>tp_writers := [y]\<rparr>" st z] step(2) assms(3) by simp
  with step(3) show ?case by (rule rtranclp.rtrancl_into_rtrancl)
qed

text \<open>A system with one station. The program allocates it and writes one event after the tracer has stored
  1 to the flag, then wakes the tracer.\<close>

definition demo_header :: GlobalHeader where
  "demo_header = \<lparr>MagicNum = 0x434F524F54524352, Version = 1, MaxStations = 1, AllocatedCount = 0, TracerSleeping = 0\<rparr>"

definition woken :: "'q \<Rightarrow> 'q tracee" where
  "woken q = \<lparr>tp_header = demo_header\<lparr>AllocatedCount := 1\<rparr>, tp_writers = [drained q NotWaking], tp_bytes = 1,
     tp_sleeps = 1, tp_sent = 1\<rparr>"

definition woken_run :: "'a probe_scheme \<Rightarrow> 'a probe_scheme \<Rightarrow> nat \<Rightarrow> 'a probe_scheme tracee" where
  "woken_run q0 q u =
     (if u \<le> 1 then tp_start [q0] demo_header
      else if u = 2 then store_sleeping 1 (tp_start [q0] demo_header) else woken q)"

lemma demo_wakes:
  assumes "(buffer_step st)\<^sup>*\<^sup>* (drained q0 NotWaking) (drained q AtFence)"
  shows "(tp_step st)\<^sup>*\<^sup>* (store_sleeping 1 (tp_start [q0] demo_header)) (woken q)"
proof -
  let ?s = "\<lambda>w sl b. \<lparr>tp_header = demo_header\<lparr>AllocatedCount := 1, TracerSleeping := sl\<rparr>, tp_writers = [w], tp_bytes = b,
     tp_sleeps = 1, tp_sent = b\<rparr>"
  have "tp_step st (store_sleeping 1 (tp_start [q0] demo_header)) (?s (drained q0 NotWaking) 1 0)"
    using alloc [of "store_sleeping 1 (tp_start [q0] demo_header)" st]
    by (simp add: demo_header_def tp_start_def store_sleeping_def probe_alloc_def)
  moreover have "(tp_step st)\<^sup>*\<^sup>* (?s (drained q0 NotWaking) 1 0) (?s (drained q AtFence) 1 0)"
    using own_steps [OF assms, of "?s (drained q0 NotWaking) 1 0"] by simp
  moreover have "tp_step st (?s (drained q AtFence) 1 0) (?s (drained q AtLoad) 1 0)"
    using own [of 0 "?s (drained q AtFence) 1 0" st "drained q AtLoad"] fence [of "drained q AtFence" st] by simp
  moreover have "tp_step st (?s (drained q AtLoad) 1 0) (?s (drained q AtSwap) 1 0)"
    using load_sleeping [of "?s (drained q AtLoad) 1 0" 0 st] by (simp add: pc_at_def set_pc_def)
  moreover have "tp_step st (?s (drained q AtSwap) 1 0) (?s (drained q AtSend) 0 0)"
    using swap_won [of "?s (drained q AtSwap) 1 0" 0 st] by (simp add: pc_at_def set_pc_def store_sleeping_def)
  moreover have "tp_step st (?s (drained q AtSend) 0 0) (woken q)"
    using send [of "?s (drained q AtSend) 0 0" 0 st] by (simp add: pc_at_def set_pc_def woken_def demo_header_def)
  ultimately show ?thesis by (meson converse_rtranclp_into_rtranclp rtranclp.rtrancl_refl rtranclp_trans)
qed

lemma woken_run_traced:
  assumes "(buffer_step st)\<^sup>*\<^sup>* (drained q0 NotWaking) (drained q AtFence)"
  shows "traced_run st (woken_run q0 q)" "asleep st (woken_run q0 q) 1 3"
proof -
  have "engine_act (woken_run q0 q u) (if u = 1 then store_sleeping 1 (woken_run q0 q u) else woken_run q0 q u) \<and>
      (tp_step st)\<^sup>*\<^sup>* (if u = 1 then store_sleeping 1 (woken_run q0 q u) else woken_run q0 q u) (woken_run q0 q (u + 1))" for u
    using demo_wakes [OF assms] by (auto simp: woken_run_def intro: engine_act.intros)
  then show "traced_run st (woken_run q0 q)" unfolding traced_run_def by blast
  show "asleep st (woken_run q0 q) 1 3"
    using demo_wakes [OF assms] by (auto simp: asleep_def woken_run_def numeral_3_eq_3 atLeastLessThanSuc)
qed

lemma cpp_demo_writes: "(buffer_step cpp_step)\<^sup>*\<^sup>* (drained (cpp_init 9) NotWaking) (drained (write_trace (demo_payload 1) cpp_demo) AtFence)"
proof -
  have "cpp_step (cpp_init 9) cpp_demo"
    using cpp_construct [of "cpp_init 9" 5] by (auto simp: cpp_demo_def cpp_init_def)
  from writer_call [of cpp_step, OF this]
  have "(buffer_step cpp_step)\<^sup>*\<^sup>* (drained (cpp_init 9) NotWaking) (drained cpp_demo NotWaking)"
    by (simp add: unlocks_def cpp_init_def)
  also have "(buffer_step cpp_step)\<^sup>*\<^sup>* (drained cpp_demo NotWaking) (drained (write_trace (demo_payload 1) cpp_demo) AtFence)"
    using idle_cpp_demo
    by (intro writer_write [where fin = "\<lambda>q. q"] cpp_lock cpp_store cpp_unlock) (simp_all add: idle_def cpp_payload_def demo_payload_def)
  finally show ?thesis .
qed

lemma rust_demo_writes: "(buffer_step rust_step)\<^sup>*\<^sup>* (drained (rust_init 4) NotWaking) (drained rust_written AtFence)"
proof -
  have "rust_step (rust_init 4) rust_born"
    using rust_new [of "rust_init 4" 6] by (simp add: rust_init_def rust_born_def)
  from writer_call [of rust_step, OF this]
  have "(buffer_step rust_step)\<^sup>*\<^sup>* (drained (rust_init 4) NotWaking) (drained rust_born NotWaking)"
    by (simp add: unlocks_def rust_init_def)
  also have "(buffer_step rust_step)\<^sup>*\<^sup>* (drained rust_born NotWaking) (drained rust_written AtFence)"
    unfolding rust_written_def
    by (rule writer_write [where fin = "\<lambda>q. q\<lparr>pt_pending := True\<rparr>"])
       (use rust_unlock [of _ "demo_payload 3"] in \<open>auto intro: rust_on_pending rust_store
          simp: rust_born_def rust_init_def demo_payload_def\<close>)
  finally show ?thesis .
qed

section \<open>Properties\<close>

lemma length_start [simp]: "length (tp_writers (tp_start qs h)) = length qs"
  by (simp add: tp_start_def)

lemma start_inv:
  "tp_inv cpp_step (tp_start (map cpp_init ids) h)" "tp_inv rust_step (tp_start (map rust_init ids) h)"
  using probe_inv_init by (auto intro!: tp_inv_start simp: cpp_init_def rust_init_def)

text \<open>C2: No wake-up is lost, for the tracer's own code reading a memory that any number of C++ probes write through store
  buffers. When a round of \<^verbatim>\<open>hotHarvestLoop\<close> comes to \<^verbatim>\<open>conn.Read\<close> and a record is due, a byte is in the socket or on its way, or the
  flag is up and a probe has yet to look at it. So if the read runs into its 50 ms deadline, with the socket
  empty and every probe out of \<^verbatim>\<open>write_trace\<close>, then no record is due and the loop goes on having missed nothing. The
  fence between the unlocking store and the load of the flag, and the second scan after the store of 1, are
  what makes this true.\<close>

theorem cpp_no_lost_wakeup:
  assumes "wf_engine e" "length ids = unat (eng_maxStations e)" "run 0 = tp_start (map cpp_init ids) h"
    "traced_run cpp_step run" "hot_wait (\<lambda>u. tp_shm (run u)) t e = Some (t1, t3, e3)" "asleep cpp_step run t1 t3"
  shows "(all_due (tp_shm (run t3)) e3 \<noteq> [] \<longrightarrow> byte_coming (run t3)) \<and>
    (reads k = ReadTimeout \<and> tp_bytes (run t3) = 0 \<and> (\<forall>i < unat (eng_maxStations e). pc_at (run t3) i NotWaking) \<longrightarrow>
       all_due (tp_shm (run t3)) e3 = [] \<and>
       hotHarvestLoop (Suc fuel) (\<lambda>u. tp_shm (run u)) reads t k e stores =
         hotHarvestLoop fuel (\<lambda>u. tp_shm (run u)) reads (t3 + 1) (k + 1) e3 (stores @ [(t1, 1)]))"
  using assms(2,3) start_inv by (intro cpp_buf.wait_outcome [OF assms(1) _ _ assms(4-6)]) simp_all

lemma cpp_woken_start: "woken_run (cpp_init 9) q 0 = tp_start (map cpp_init [9]) demo_header"
  and rust_woken_start: "woken_run (rust_init 4) q' 0 = tp_start (map rust_init [4]) demo_header"
  and demo_stations: "length [x] = unat (eng_maxStations demo_engine)"
  by (simp_all add: woken_run_def demo_engine_def)

lemma one_record: "map fst xs = [k] \<Longrightarrow> \<exists>v. xs = [(k, v)]" for xs :: "scan_record list"
  by (cases xs) auto

theorem cpp_no_lost_wakeup_witness:
  "let run = woken_run (cpp_init 9) (write_trace (demo_payload 1) cpp_demo) in
   \<exists>e3. hot_wait (\<lambda>u. tp_shm (run u)) 0 demo_engine = Some (1, 3, e3) \<and> asleep cpp_step run 1 3 \<and>
     all_due (tp_shm (run 3)) e3 = [(0, 0)] \<and> byte_coming (run 3)"
proof -
  let ?run = "woken_run (cpp_init 9) (write_trace (demo_payload 1) cpp_demo)"
  let ?w = "hot_wait (\<lambda>u. tp_shm (?run u)) 0 demo_engine"
  have "map_option (\<lambda>(t1, t3, _). (t1, t3)) ?w = Some (1, 3)" by code_simp
  then obtain e3 where w: "?w = Some (1, 3, e3)" by auto
  have "map_option (\<lambda>(_, _, e3). all_due (tp_shm (?run 3)) e3) ?w = Some [(0, 0)]" by code_simp
  then have due: "all_due (tp_shm (?run 3)) e3 = [(0, 0)]" using w by simp
  note run = woken_run_traced [OF cpp_demo_writes]
  have "byte_coming (?run 3)"
    using cpp_no_lost_wakeup [OF wf_demo demo_stations cpp_woken_start run(1) w run(2)] due by (metis list.distinct(1))
  with w due run(2) show ?thesis by (auto simp: Let_def)
qed

text \<open>The same for the probes of the Rust kit.\<close>

lemma rust_no_lost_wakeup:
  assumes "wf_engine e" "length ids = unat (eng_maxStations e)" "run 0 = tp_start (map rust_init ids) h"
    "traced_run rust_step run" "hot_wait (\<lambda>u. tp_shm (run u)) t e = Some (t1, t3, e3)" "asleep rust_step run t1 t3"
  shows "(all_due (tp_shm (run t3)) e3 \<noteq> [] \<longrightarrow> byte_coming (run t3)) \<and>
    (reads k = ReadTimeout \<and> tp_bytes (run t3) = 0 \<and> (\<forall>i < unat (eng_maxStations e). pc_at (run t3) i NotWaking) \<longrightarrow>
       all_due (tp_shm (run t3)) e3 = [] \<and>
       hotHarvestLoop (Suc fuel) (\<lambda>u. tp_shm (run u)) reads t k e stores =
         hotHarvestLoop fuel (\<lambda>u. tp_shm (run u)) reads (t3 + 1) (k + 1) e3 (stores @ [(t1, 1)]))"
  using assms(2,3) start_inv by (intro rust_buf.wait_outcome [OF assms(1) _ _ assms(4-6)]) simp_all

text \<open>A record of slot \<open>j\<close> of station \<open>i\<close> that is one finished call of \<^verbatim>\<open>write_trace\<close> of the probe that owns the station: all four
  fields from the same call, under the number of that call and the identifier of that probe.\<close>

definition finished_call :: "(nat \<Rightarrow> 'a probe_scheme tracee) \<Rightarrow> u64 list \<Rightarrow> nat \<Rightarrow> nat \<Rightarrow> slot_event \<Rightarrow> bool" where
  "finished_call run ids i j ev \<longleftrightarrow>
     i < length ids \<and> j < 8 \<and>
     (\<exists>u. let calls = pr_written (w_mem (tp_writers (run u) ! i)) j in
        calls \<noteq> [] \<and> event_payload ev = last calls \<and> unat (ev_seq ev) = 2 * length calls \<and> ev_probe ev = ids ! i)"

lemma cpp_record_finished:
  assumes "wf_engine e" "length ids = unat (eng_maxStations e)" "run 0 = tp_start (map cpp_init ids) h"
    "traced_run cpp_step run" "\<And>u i j. i < length ids \<Longrightarrow> length (pr_written (w_mem (tp_writers (run u) ! i)) j) < 2 ^ 63"
    "((i, j), ev) \<in> set (scan_history (\<lambda>u. tp_shm (run u)) ts e)"
  shows "finished_call run ids i j ev"
proof -
  have i: "i < length ids" "j < 8" using scan_history_read [OF assms(1,6)] assms(2) by auto
  then have "pr_id (w_mem (tp_writers (run 0) ! i)) = ids ! i" using assms(3) by (simp add: tp_start_def cpp_init_def)
  moreover have "tp_inv cpp_step (run 0)" "length (tp_writers (run 0)) = unat (eng_maxStations e)"
    using assms(2,3) start_inv by simp_all
  ultimately show ?thesis using cpp_buf.scans_untorn [OF assms(4) _ _ assms(1) _ assms(6)] assms(2,5) i by (simp add: finished_call_def Let_def)
qed

text \<open>C1: Over any number of scans, while any number of C++ probes write their stations through store buffers, what the
  engine adds to the log is one line per record found, and every such record of slot \<open>j\<close> of station \<open>i\<close> is one finished call
  of \<^verbatim>\<open>write_trace\<close> of the probe that owns the station: all four fields from the same call, under the number of that call and the
  identifier of that probe. No torn or invented record reaches the log. (Fewer than \<open>2 ^ 63\<close> writes per slot, so that
  the number does not wrap, and no write to the log fails.)\<close>

theorem cpp_scans_untorn:
  assumes "wf_engine e" "length ids = unat (eng_maxStations e)" "run 0 = tp_start (map cpp_init ids) h"
    "traced_run cpp_step run" "\<And>u i j. i < length ids \<Longrightarrow> length (pr_written (w_mem (tp_writers (run u) ! i)) j) < 2 ^ 63"
    "\<not> sw_failed (eng_writer (scan_all (\<lambda>u. tp_shm (run u)) ts e))"
  shows "let mem = (\<lambda>u. tp_shm (run u)); found = scan_history mem ts e in
    sw_stream (eng_writer (scan_all mem ts e)) = sw_stream (eng_writer e) @ concat (map (\<lambda>r. event_line (snd r)) found) \<and>
    (\<forall>i j ev. ((i, j), ev) \<in> set found \<longrightarrow> finished_call run ids i j ev)"
  using scan_all_stream [OF assms(6)] cpp_record_finished [OF assms(1-5)] unfolding Let_def by blast

lemma cpp_woken_written:
  assumes "i < length [9::u64]"
  shows "pr_written (w_mem (tp_writers (woken_run (cpp_init 9) (write_trace (demo_payload 1) cpp_demo) u) ! i)) j
    \<in> {[], [demo_payload 1]}"
  using assms by (auto simp: woken_run_def woken_def tp_start_def cpp_demo_def cpp_init_def set_header_def)

lemma cpp_woken_few:
  assumes "i < length [9::u64]"
  shows "length (pr_written (w_mem (tp_writers (woken_run (cpp_init 9) (write_trace (demo_payload 1) cpp_demo) u) ! i)) j) < 2 ^ 63"
  using cpp_woken_written [OF assms, of u j] by (elim insertE emptyE) simp_all

theorem cpp_scans_untorn_witness:
  "let mem = (\<lambda>u. tp_shm (woken_run (cpp_init 9) (write_trace (demo_payload 1) cpp_demo) u)) in
   \<exists>ev. sw_stream (eng_writer (scan_all mem [0, 5] demo_engine)) = sw_stream (eng_writer demo_engine) @ event_line ev \<and>
     event_payload ev = demo_payload 1 \<and> ev_probe ev = 9"
proof -
  let ?run = "woken_run (cpp_init 9) (write_trace (demo_payload 1) cpp_demo)"
  let ?mem = "\<lambda>u. tp_shm (?run u)"
  have "map fst (scan_history ?mem [0, 5] demo_engine) = [(0, 0)]" by code_simp
  from one_record [OF this] obtain ev where h: "scan_history ?mem [0, 5] demo_engine = [((0, 0), ev)]" by blast
  have ok: "\<not> sw_failed (eng_writer (scan_all ?mem [0, 5] demo_engine))" by code_simp
  note logged = cpp_scans_untorn [OF wf_demo demo_stations cpp_woken_start woken_run_traced(1) [OF cpp_demo_writes] cpp_woken_few ok, unfolded Let_def h]
  have "finished_call ?run [9] 0 0 ev" using logged by (simp del: scan_all.simps)
  then obtain u where "pr_written (w_mem (tp_writers (?run u) ! 0)) 0 \<noteq> []"
    "event_payload ev = last (pr_written (w_mem (tp_writers (?run u) ! 0)) 0)" "ev_probe ev = 9"
    by (auto simp: finished_call_def Let_def)
  with cpp_woken_written [of 0 u 0] have "event_payload ev = demo_payload 1" "ev_probe ev = 9" by auto
  with logged show ?thesis unfolding Let_def by (intro exI [of _ ev]) (simp del: scan_all.simps)
qed

lemma rust_record_finished:
  assumes "wf_engine e" "length ids = unat (eng_maxStations e)" "run 0 = tp_start (map rust_init ids) h"
    "traced_run rust_step run" "\<And>u i j. i < length ids \<Longrightarrow> length (pr_written (w_mem (tp_writers (run u) ! i)) j) < 2 ^ 63"
    "((i, j), ev) \<in> set (scan_history (\<lambda>u. tp_shm (run u)) ts e)"
  shows "finished_call run ids i j ev"
proof -
  have i: "i < length ids" "j < 8" using scan_history_read [OF assms(1,6)] assms(2) by auto
  then have "pr_id (w_mem (tp_writers (run 0) ! i)) = ids ! i" using assms(3) by (simp add: tp_start_def rust_init_def)
  moreover have "tp_inv rust_step (run 0)" "length (tp_writers (run 0)) = unat (eng_maxStations e)"
    using assms(2,3) start_inv by simp_all
  ultimately show ?thesis using rust_buf.scans_untorn [OF assms(4) _ _ assms(1) _ assms(6)] assms(2,5) i by (simp add: finished_call_def Let_def)
qed

text \<open>C10: The same for the probes of the Rust kit, whose resumptions are reported only after a suspension: every line the
  scans add to the log is a finished call of \<^verbatim>\<open>write_trace\<close> of the probe that owns the station.\<close>

theorem rust_scans_untorn:
  assumes "wf_engine e" "length ids = unat (eng_maxStations e)" "run 0 = tp_start (map rust_init ids) h"
    "traced_run rust_step run" "\<And>u i j. i < length ids \<Longrightarrow> length (pr_written (w_mem (tp_writers (run u) ! i)) j) < 2 ^ 63"
    "\<not> sw_failed (eng_writer (scan_all (\<lambda>u. tp_shm (run u)) ts e))"
  shows "let mem = (\<lambda>u. tp_shm (run u)); found = scan_history mem ts e in
    sw_stream (eng_writer (scan_all mem ts e)) = sw_stream (eng_writer e) @ concat (map (\<lambda>r. event_line (snd r)) found) \<and>
    (\<forall>i j ev. ((i, j), ev) \<in> set found \<longrightarrow> finished_call run ids i j ev)"
  using scan_all_stream [OF assms(6)] rust_record_finished [OF assms(1-5)] unfolding Let_def by blast

theorem rust_scans_untorn_witness:
  "let mem = (\<lambda>u. tp_shm (woken_run (rust_init 4) rust_written u)) in
   \<exists>ev. sw_stream (eng_writer (scan_all mem [0, 5] demo_engine)) = sw_stream (eng_writer demo_engine) @ event_line ev \<and>
     event_payload ev = demo_payload 3 \<and> ev_probe ev = 4"
proof -
  let ?run = "woken_run (rust_init 4) rust_written"
  let ?mem = "\<lambda>u. tp_shm (?run u)"
  have "map fst (scan_history ?mem [0, 5] demo_engine) = [(0, 0)]" by code_simp
  from one_record [OF this] obtain ev where h: "scan_history ?mem [0, 5] demo_engine = [((0, 0), ev)]" by blast
  have ok: "\<not> sw_failed (eng_writer (scan_all ?mem [0, 5] demo_engine))" by code_simp
  have w: "pr_written (w_mem (tp_writers (?run u) ! i)) j \<in> {[], [demo_payload 3]}" if "i < length [4::u64]" for u i j
    using that by (auto simp: woken_run_def woken_def tp_start_def rust_written_def rust_born_def rust_init_def set_header_def)
  have few: "length (pr_written (w_mem (tp_writers (?run u) ! i)) j) < 2 ^ 63" if "i < length [4::u64]" for u i j
    using w [OF that, of u j] by (elim insertE emptyE) simp_all
  note logged = rust_scans_untorn [OF wf_demo demo_stations rust_woken_start woken_run_traced(1) [OF rust_demo_writes] few ok, unfolded Let_def h]
  have "finished_call ?run [4] 0 0 ev" using logged by (simp del: scan_all.simps)
  then obtain u where "pr_written (w_mem (tp_writers (?run u) ! 0)) 0 \<noteq> []"
    "event_payload ev = last (pr_written (w_mem (tp_writers (?run u) ! 0)) 0)" "ev_probe ev = 4"
    by (auto simp: finished_call_def Let_def)
  with w [of 0 u 0] have "event_payload ev = demo_payload 3" "ev_probe ev = 4" by auto
  with logged show ?thesis unfolding Let_def by (intro exI [of _ ev]) (simp del: scan_all.simps)
qed

text \<open>C11: At most one byte is put into the socket per store of 1 to \<^verbatim>\<open>TracerSleeping\<close>: of all probes that see the flag only
  the one whose compare-and-swap succeeds sends.\<close>

theorem one_byte_per_sleep:
  assumes "run 0 = tp_start qs h" "TracerSleeping h = 0" "traced_run st run"
  shows "tp_sent (run u) + count_list (map w_pc (tp_writers (run u))) AtSend \<le> tp_sleeps (run u) \<and> tp_bytes (run u) \<le> tp_sent (run u)"
proof -
  have "byte_inv (run 0)"
    using assms(1,2) by (simp add: byte_inv_def winners_def tp_start_def comp_def count_list_0_iff image_iff)
  from byte_inv_run [OF assms(3) this, of u] show ?thesis by (simp add: byte_inv_def winners_def)
qed

theorem one_byte_per_sleep_witness:
  "let run = woken_run (cpp_init 9) (write_trace (demo_payload 1) cpp_demo) in
   traced_run cpp_step run \<and> tp_sent (run 3) = 1 \<and> tp_sent (run 3) \<le> tp_sleeps (run 3)"
proof -
  let ?run = "woken_run (cpp_init 9) (write_trace (demo_payload 1) cpp_demo)"
  note run = woken_run_traced(1) [OF cpp_demo_writes]
  have "tp_sent (?run 3) = 1" by (simp add: woken_run_def woken_def)
  moreover have "tp_sent (?run 3) \<le> tp_sleeps (?run 3)"
    using one_byte_per_sleep [OF cpp_woken_start _ run, of 3] by (simp add: demo_header_def)
  ultimately show ?thesis using run by (simp add: Let_def)
qed

end
