(* ===== verification/Release_Order.thy ===== *)
theory Release_Order
  imports Probe_Harvest
begin

text \<open>
  What the release stores of \<^verbatim>\<open>write_trace\<close> order and what they do not. A release store becomes visible after every store
  before it in the program; nothing keeps a store that follows it from becoming visible earlier. So the store that
  unlocks a slot is ordered after the payload, but the payload is not ordered after the store that locks it, neither
  by the compiler nor by a processor that reorders stores.
\<close>

section \<open>Orders of visibility\<close>

text \<open>The six stores of a call, in program order.\<close>

datatype wt_op = StoreOdd | StoreAddr | StoreTid | StoreTs | StoreActive | StoreEven

definition wt_ops :: "wt_op list" where
  "wt_ops = [StoreOdd, StoreAddr, StoreTid, StoreTs, StoreActive, StoreEven]"

definition is_release :: "wt_op \<Rightarrow> bool" where
  "is_release op \<longleftrightarrow> op = StoreOdd \<or> op = StoreEven"

fun apply_op :: "payload \<Rightarrow> u64 \<Rightarrow> wt_op \<Rightarrow> Epoch \<Rightarrow> Epoch" where
  "apply_op p old StoreOdd e = e\<lparr>Seq := old + 1\<rparr>"
| "apply_op p old StoreAddr e = e\<lparr>Addr := p_addr p\<rparr>"
| "apply_op p old StoreTid e = e\<lparr>TID := p_tid p\<rparr>"
| "apply_op p old StoreTs e = e\<lparr>Timestamp := p_ts p\<rparr>"
| "apply_op p old StoreActive e = e\<lparr>IsActive := p_active p\<rparr>"
| "apply_op p old StoreEven e = e\<lparr>Seq := old + 2\<rparr>"

definition apply_ops :: "payload \<Rightarrow> u64 \<Rightarrow> wt_op list \<Rightarrow> Epoch \<Rightarrow> Epoch" where
  "apply_ops p old ops e = fold (apply_op p old) ops e"

fun ordered_pairs :: "'a list \<Rightarrow> ('a \<times> 'a) list" where
  "ordered_pairs [] = []"
| "ordered_pairs (x # xs) = map (Pair x) xs @ ordered_pairs xs"

text \<open>The orders in which release semantics lets the stores of a call become visible.\<close>

definition release_order :: "wt_op list \<Rightarrow> bool" where
  "release_order ops \<longleftrightarrow>
     length ops = length wt_ops \<and> set ops = set wt_ops \<and>
     list_all (\<lambda>(a, b). is_release b \<longrightarrow> (a, b) \<in> set (ordered_pairs ops)) (ordered_pairs wt_ops)"

text \<open>Every such order ends with the unlocking store, so all of them leave the same slot behind as the call itself.\<close>

lemma program_order: "release_order wt_ops"
  by (auto simp: release_order_def list_all_iff)

lemma apply_wt_ops: "apply_ops p (Seq e) wt_ops e = fill_slot p e"
  by (simp add: apply_ops_def wt_ops_def fill_slot_def)

text \<open>The address may become visible before the slot is locked.\<close>

definition early_addr :: "wt_op list" where
  "early_addr = [StoreAddr, StoreOdd, StoreTid, StoreTs, StoreActive, StoreEven]"

lemma release_order_early: "release_order early_addr"
  by (simp add: release_order_def early_addr_def wt_ops_def is_release_def) blast

lemma apply_early: "apply_ops p (Seq e) early_addr e = fill_slot p e"
  by (simp add: apply_ops_def early_addr_def fill_slot_def)

section \<open>A torn record\<close>

text \<open>The station while the stores of a call on slot \<open>i\<close> become visible in the order \<open>ops\<close>, the first \<open>vis u\<close> of them
  before time \<open>u\<close>.\<close>

definition visible_run :: "StationData \<Rightarrow> nat \<Rightarrow> payload \<Rightarrow> wt_op list \<Rightarrow> (nat \<Rightarrow> nat) \<Rightarrow> station_run" where
  "visible_run s i p ops vis u =
     s\<lparr>Slots := (Slots s)[i := apply_ops p (Seq (Slots s ! i)) (take (vis u) ops) (Slots s ! i)]\<rparr>"

definition torn :: "StationData \<Rightarrow> nat \<Rightarrow> payload \<Rightarrow> slot_event" where
  "torn s i p = (slot_record s i)\<lparr>ev_addr := p_addr p\<rparr>"

lemma torn_neither:
  "p_addr p \<noteq> Addr (Slots s ! i) \<Longrightarrow> p_tid p \<noteq> TID (Slots s ! i) \<Longrightarrow>
   event_payload (torn s i p) \<noteq> epoch_payload (Slots s ! i) \<and> event_payload (torn s i p) \<noteq> p"
  by (cases p) (auto simp: torn_def slot_record_def Let_def event_payload_def epoch_payload_def)

text \<open>One store visible from time 2 on, the rest after the reader has checked the number again.\<close>

definition late_lock :: "nat \<Rightarrow> nat" where
  "late_lock u = (if u < 2 then 0 else if u < 6 then 1 else 6)"

lemma late_lock_read:
  assumes "length (Slots s) = 8" "i < 8" "lastSeen < Seq (Slots s ! i)" "even (unat (Seq (Slots s ! i)))"
  shows "slot_read (visible_run s i p early_addr late_lock) 0 i lastSeen = Some (torn s i p)"
  using assms
  by (simp add: slot_read_def visible_run_def late_lock_def early_addr_def apply_ops_def torn_def slot_record_def Let_def)

text \<open>In program order the number tells the stages of a call apart.\<close>

lemma program_seq:
  "Seq (apply_ops p old (take k wt_ops) e) = (if k = 0 then Seq e else if k < 6 then old + 1 else old + 2)"
proof -
  consider "k = 0" | "k = 1" | "k = 2" | "k = 3" | "k = 4" | "k = 5" | "6 \<le> k" by linarith
  then show ?thesis by cases (simp_all add: apply_ops_def wt_ops_def)
qed

lemma program_all: "6 \<le> k \<Longrightarrow> apply_ops p (Seq e) (take k wt_ops) e = fill_slot p e"
  using apply_wt_ops [of p e] by (simp add: wt_ops_def)

lemma odd_succ: "even (unat (v::u64)) \<Longrightarrow> odd (unat (v + 1))"
  by (simp add: unat_word_ariths(1) dvd_mod_iff)

lemma program_order_read:
  assumes "length (Slots s) = 8" "i < 8" "mono vis" "even (unat (Seq (Slots s ! i)))"
    "slot_read (visible_run s i p wt_ops vis) t i lastSeen = Some ev"
  shows "event_payload ev = epoch_payload (Slots s ! i) \<or> event_payload ev = p"
proof -
  let ?e = "Slots s ! i"
  let ?slot = "\<lambda>k. apply_ops p (Seq ?e) (take (vis (t + k)) wt_ops) ?e"
  have at: "Slots (visible_run s i p wt_ops vis u) ! i = apply_ops p (Seq ?e) (take (vis u) wt_ops) ?e" for u
    using assms(1,2) by (simp add: visible_run_def)
  have ev: "even (unat (Seq (?slot 0)))" "Seq (?slot 5) = Seq (?slot 0)"
      "event_payload ev = \<lparr>p_tid = TID (?slot 1), p_addr = Addr (?slot 2), p_active = IsActive (?slot 3), p_ts = Timestamp (?slot 4)\<rparr>"
    using assms(5) by (auto simp: slot_read_def Let_def at event_payload_def split: if_splits)
  have le: "vis t \<le> vis (t + k)" "k \<le> 5 \<Longrightarrow> vis (t + k) \<le> vis (t + 5)" for k
    using assms(3) by (simp_all add: mono_def)
  consider (old) "vis (t + 5) = 0" | (new) "6 \<le> vis t"
    using ev(1,2) odd_succ [OF assms(4)] le(1) [of 5] by (auto simp: program_seq split: if_splits)
  then show ?thesis
  proof cases
    case old
    have same: "?slot k = ?e" if "k \<le> 5" for k using old le(2) [OF that] by (simp add: apply_ops_def)
    show ?thesis unfolding ev(3) using same [of 1] same [of 2] same [of 3] same [of 4] by (simp add: epoch_payload_def)
  next
    case new
    have same: "?slot k = fill_slot p ?e" for k using new le(1) [of k] by (intro program_all) simp
    show ?thesis unfolding ev(3) same by (simp add: fill_slot_def)
  qed
qed

lemma program_order_harvest:
  assumes "length (Slots s) = 8" "i < 8" "mono vis" "even (unat (Seq (Slots s ! i)))"
    "harvest_slot (visible_run s i p wt_ops vis) t i lastSeen sw = (t', seen, sw', hit)"
  shows "if hit then \<exists>ev. sw' = write_event sw ev \<and> seen = ev_seq ev \<and>
           (event_payload ev = epoch_payload (Slots s ! i) \<or> event_payload ev = p)
         else sw' = sw \<and> seen = lastSeen"
proof (cases "slot_read (visible_run s i p wt_ops vis) t i lastSeen")
  case None
  with assms(5) show ?thesis by (auto simp: harvest_slot_read seen_after_def)
next
  case (Some ev)
  with program_order_read [OF assms(1-4) Some] assms(5) show ?thesis
    by (auto simp: harvest_slot_read seen_after_def intro!: exI [of _ ev])
qed

section \<open>Properties\<close>

text \<open>C12: The release store of the odd number does not protect the payload. Take any finished record in a slot that is due
  and any next call of \<^verbatim>\<open>write_trace\<close> on that slot with another address and thread: release semantics lets the address become
  visible before the odd number, and then \<^verbatim>\<open>Harvest\<close> can log the new address with the rest of the old record under the old
  number, a record that was never written. If the stores become visible in program order, as on x86 when the compiler
  keeps it, whatever \<^verbatim>\<open>Harvest\<close> logs of the slot, at any time of the call, is one of the two records, and otherwise it leaves the
  log and its counter alone.\<close>

theorem release_stores_torn:
  assumes "length (Slots s) = 8" "i < 8" "lastSeen < Seq (Slots s ! i)" "even (unat (Seq (Slots s ! i)))"
    "p_addr p \<noteq> Addr (Slots s ! i)" "p_tid p \<noteq> TID (Slots s ! i)"
  shows "(\<exists>ops vis ev. release_order ops \<and> mono vis \<and> (\<forall>u \<ge> 6. visible_run s i p ops vis u = visible_run s i p wt_ops (\<lambda>_. 6) u) \<and>
       harvest_slot (visible_run s i p ops vis) 0 i lastSeen sw = (7, Seq (Slots s ! i), write_event sw ev, True) \<and>
       event_payload ev \<noteq> epoch_payload (Slots s ! i) \<and> event_payload ev \<noteq> p) \<and>
     (\<forall>vis t t' seen sw' hit. mono vis \<and> harvest_slot (visible_run s i p wt_ops vis) t i lastSeen sw = (t', seen, sw', hit) \<longrightarrow>
       (if hit then \<exists>ev. sw' = write_event sw ev \<and> seen = ev_seq ev \<and>
          (event_payload ev = epoch_payload (Slots s ! i) \<or> event_payload ev = p)
        else sw' = sw \<and> seen = lastSeen))"
proof -
  let ?run = "visible_run s i p early_addr late_lock"
  have read: "slot_read ?run 0 i lastSeen = Some (torn s i p)" by (rule late_lock_read [OF assms(1-4)])
  then have "harvest_slot ?run 0 i lastSeen sw = (7, Seq (Slots s ! i), write_event sw (torn s i p), True)"
    using slot_read_seq [OF read]
    by (simp add: harvest_slot_read slot_ticks_def seen_after_def torn_def slot_record_def Let_def not_le)
       (auto simp: slot_read_def Let_def split: if_splits)
  moreover have "mono late_lock" by (auto simp: mono_def late_lock_def)
  moreover have "?run u = visible_run s i p wt_ops (\<lambda>_. 6) u" if "6 \<le> u" for u
    using that apply_early [of p "Slots s ! i"] apply_wt_ops [of p "Slots s ! i"]
    by (simp add: visible_run_def late_lock_def early_addr_def wt_ops_def)
  ultimately have "\<exists>ops vis ev. release_order ops \<and> mono vis \<and> (\<forall>u \<ge> 6. visible_run s i p ops vis u = visible_run s i p wt_ops (\<lambda>_. 6) u) \<and>
       harvest_slot (visible_run s i p ops vis) 0 i lastSeen sw = (7, Seq (Slots s ! i), write_event sw ev, True) \<and>
       event_payload ev \<noteq> epoch_payload (Slots s ! i) \<and> event_payload ev \<noteq> p"
    using release_order_early torn_neither [OF assms(5,6)] by blast
  moreover have "if hit then \<exists>ev. sw' = write_event sw ev \<and> seen = ev_seq ev \<and>
          (event_payload ev = epoch_payload (Slots s ! i) \<or> event_payload ev = p)
        else sw' = sw \<and> seen = lastSeen"
    if "mono vis" "harvest_slot (visible_run s i p wt_ops vis) t i lastSeen sw = (t', seen, sw', hit)" for vis t t' seen sw' hit
    using program_order_harvest [OF assms(1,2) that(1) assms(4) that(2)] .
  ultimately show ?thesis by blast
qed

theorem release_stores_torn_witness:
  "let s = demo_station 2; p = \<lparr>p_tid = 8, p_addr = 5, p_active = True, p_ts = 9\<rparr> in
   Seq (Slots s ! 3) = 2 \<and> TID (Slots s ! 3) = 7 \<and>
   (\<exists>ops vis ev. release_order ops \<and>
      harvest_slot (visible_run s 3 p ops vis) 0 3 0 demo_writer = (7, 2, write_event demo_writer ev, True) \<and>
      event_payload ev \<noteq> epoch_payload (Slots s ! 3) \<and> event_payload ev \<noteq> p)"
proof -
  let ?s = "demo_station 2" and ?p = "\<lparr>p_tid = 8, p_addr = 5, p_active = True, p_ts = 9\<rparr> :: payload"
  have slot: "length (Slots ?s) = 8" "Seq (Slots ?s ! 3) = 2" "TID (Slots ?s ! 3) = 7" "Addr (Slots ?s ! 3) = 0"
    by (simp_all add: demo_station_def zero_station_def zero_epoch_def)
  have "\<exists>ops vis ev. release_order ops \<and>
      harvest_slot (visible_run ?s 3 ?p ops vis) 0 3 0 demo_writer = (7, Seq (Slots ?s ! 3), write_event demo_writer ev, True) \<and>
      event_payload ev \<noteq> epoch_payload (Slots ?s ! 3) \<and> event_payload ev \<noteq> ?p"
    using release_stores_torn [of ?s 3 0 ?p demo_writer] slot by (auto simp: slot)
  with slot show ?thesis by (simp add: Let_def)
qed

end
