(* ===== verification/Engine_Runs.thy ===== *)
theory Engine_Runs
  imports Engine_Loop
begin

text \<open>
  Whole runs of the engine: \<^verbatim>\<open>Run\<close> over any sequence of connections, and what a failed write to the log does to the
  rest of a run.
\<close>

section \<open>The writer does not steer the harvest\<close>

lemma doScan_same:
  assumes "same_counters e f" "doScan mem t e = (t', e', n)"
  obtains f' where "doScan mem t f = (t', f', n)" "same_counters e' f'"
proof
  show "doScan mem t f = (t', scanned mem t f, n)"
    using assms by (auto simp: same_counters_def doScan_eq scanned_def doScan_events_def scan_range_def clamp_allocated_def)
  show "same_counters e' (scanned mem t f)"
    using same_counters_scan [OF assms(1), of mem t] assms(2) by (simp add: scanned_def)
qed

lemma same_counters_Flush_both: "same_counters e f \<Longrightarrow> same_counters (eng_Flush e) (eng_Flush f)"
  by (simp add: same_counters_def eng_Flush_def)

lemma last_scan_same:
  assumes "same_counters e f" "last_scan mem t e = (t', e')"
  obtains f' where "last_scan mem t f = (t', f')" "same_counters e' f'"
proof -
  obtain e1 n where e1: "doScan mem t e = (t', e1, n)" "e' = eng_Flush e1"
    using assms(2) by (auto simp: last_scan_def split: prod.splits)
  from doScan_same [OF assms(1) e1(1)] obtain f1 where "doScan mem t f = (t', f1, n)" "same_counters e1 f1" .
  with e1(2) that [of "eng_Flush f1"] same_counters_Flush_both show thesis by (simp add: last_scan_def)
qed

text \<open>Two engines with the same counters go through the hot loop alike, whatever their writers are.\<close>

lemma hot_same:
  "hotHarvestLoop fuel mem reads t k e stores = Some (t', k', e', st) \<Longrightarrow> same_counters e f \<Longrightarrow>
   \<exists>f'. hotHarvestLoop fuel mem reads t k f stores = Some (t', k', f', st) \<and> same_counters e' f'"
proof (induction fuel arbitrary: t k e f stores)
  case (Suc fuel)
  obtain t1 e1 n1 where s1: "doScan mem t e = (t1, e1, n1)" by (cases "doScan mem t e")
  obtain f1 where f1: "doScan mem t f = (t1, f1, n1)" "same_counters e1 f1"
    using doScan_same [OF Suc.prems(2) s1] .
  obtain t3 e3 n3 where s3: "doScan mem (t1 + 1) (eng_Flush e1) = (t3, e3, n3)"
    by (cases "doScan mem (t1 + 1) (eng_Flush e1)")
  obtain f3 where f3: "doScan mem (t1 + 1) (eng_Flush f1) = (t3, f3, n3)" "same_counters e3 f3"
    using doScan_same [OF same_counters_Flush_both [OF f1(2)] s3] .
  obtain t4 e4 where s4: "last_scan mem (t3 + 1) e3 = (t4, e4)" by (cases "last_scan mem (t3 + 1) e3")
  obtain f4 where f4: "last_scan mem (t3 + 1) f3 = (t4, f4)" "same_counters e4 f4"
    using last_scan_same [OF f3(2) s4] .
  show ?case
  proof (cases "n1 > 0 \<or> n3 > 0")
    case True
    with Suc.prems(1) Suc.IH [OF _ f1(2)] Suc.IH [OF _ f3(2)] s1 s3 f1 f3 show ?thesis
      by (auto simp: hotHarvestLoop.simps(2) Let_def split: if_splits)
  next
    case False
    with Suc.prems(1) Suc.IH [OF _ f3(2)] s1 s3 s4 f1 f3 f4 show ?thesis
      by (cases "reads k") (auto simp: hotHarvestLoop.simps(2) Let_def split: if_splits)
  qed
qed simp

section \<open>After a failed write\<close>

lemma write_events_broken: "sw_failed sw \<Longrightarrow> sw_writer (write_events sw es) = sw_writer sw"
  unfolding write_events_def
  by (induction es arbitrary: sw) (simp_all add: write_event_def osf.write_stuck Let_def)

lemma logged_broken: "logged mem ts e e' \<Longrightarrow> sw_failed (eng_writer e) \<Longrightarrow> sw_failed (eng_writer e')"
  by (auto simp: logged_def)

definition same_log :: "TracerEngine \<Rightarrow> TracerEngine \<Rightarrow> bool" where
  "same_log e e' \<longleftrightarrow> sw_writer (eng_writer e') = sw_writer (eng_writer e)"

lemma doScan_broken: "sw_failed (eng_writer e) \<Longrightarrow> doScan mem t e = (t', e', n) \<Longrightarrow> same_log e e'"
  by (auto simp: same_log_def doScan_eq write_events_broken)

lemma Flush_broken: "sw_failed (eng_writer e) \<Longrightarrow> same_log e (eng_Flush e)"
  by (simp add: same_log_def eng_Flush_def sw_Flush_stuck)

lemma hot_broken:
  "hotHarvestLoop fuel mem reads t k e stores = Some (t', k', e', st) \<Longrightarrow> sw_failed (eng_writer e) \<Longrightarrow> same_log e e'"
proof (induction fuel arbitrary: t k e stores)
  case (Suc fuel)
  obtain t1 e1 n1 where s1: "doScan mem t e = (t1, e1, n1)" by (cases "doScan mem t e")
  obtain t3 e3 n3 where s3: "doScan mem (t1 + 1) (eng_Flush e1) = (t3, e3, n3)"
    by (cases "doScan mem (t1 + 1) (eng_Flush e1)")
  obtain t4 e4 n4 where s4: "doScan mem (t3 + 1) e3 = (t4, e4, n4)" by (cases "doScan mem (t3 + 1) e3")
  have l1: "same_log e e1" using doScan_broken [OF Suc.prems(2) s1] .
  then have l2: "same_log e (eng_Flush e1)" using Flush_broken [of e1] Suc.prems(2) by (simp add: same_log_def)
  then have l3: "same_log e e3" using doScan_broken [OF _ s3] Suc.prems(2) by (simp add: same_log_def)
  then have l4: "same_log e (eng_Flush e4)"
    using doScan_broken [OF _ s4] Flush_broken [of e4] Suc.prems(2) by (simp add: same_log_def)
  have "same_log e e'" if "same_log e1 e' \<or> same_log e3 e' \<or> e' = eng_Flush e4"
    using that l1 l3 l4 by (auto simp: same_log_def)
  moreover have "sw_failed (eng_writer e1)" "sw_failed (eng_writer e3)" using l1 l3 Suc.prems(2) by (simp_all add: same_log_def)
  ultimately show ?case
    using Suc.prems(1) Suc.IH [of t1 k e1 stores] Suc.IH [of _ _ e3] s1 s3 s4
    by (cases "reads k") (auto simp: hotHarvestLoop.simps(2) Let_def last_scan_def split: if_splits)
qed simp

text \<open>C29: After a failed write to the log nothing is logged any more and nobody notices: the hot loop goes through the same
  rounds as with a working log and marks every record it finds as seen, while the file stays as it is.\<close>

theorem write_error_drops_records:
  assumes "sw_failed (eng_writer e)" "hotHarvestLoop fuel mem reads t k e stores = Some (t', k', e', st)"
  shows "sw_file (eng_writer e') = sw_file (eng_writer e) \<and>
    (\<forall>sw. \<exists>g. hotHarvestLoop fuel mem reads t k (e\<lparr>eng_writer := sw\<rparr>) stores = Some (t', k', g, st) \<and>
       eng_lastSeen g = eng_lastSeen e')"
proof -
  have "same_counters e (e\<lparr>eng_writer := sw\<rparr>)" for sw by (simp add: same_counters_def)
  then have "\<exists>g. hotHarvestLoop fuel mem reads t k (e\<lparr>eng_writer := sw\<rparr>) stores = Some (t', k', g, st) \<and>
       eng_lastSeen g = eng_lastSeen e'" for sw
    using hot_same [OF assms(2)] unfolding same_counters_def by metis
  with hot_broken [OF assms(2,1)] show ?thesis by (simp add: same_log_def sw_file_def)
qed

section \<open>Serving connections\<close>

text \<open>What a later part of a run has caught up with, seen from the start of the run.\<close>

lemma log_complete_append:
  "log_complete mem a b e hist \<Longrightarrow> log_complete mem a b e (hist @ more_hist)"
  unfolding log_complete_def by (auto; blast)

lemma log_complete_earlier:
  assumes "wf_engine e" "logged mem ts e e1" "log_complete mem a b e1 (scan_history mem us e1)"
  shows "log_complete mem a b e (scan_history mem (ts @ us) e)"
  unfolding log_complete_def
proof (intro allI impI, elim conjE)
  fix i j p s
  assume slot: "slot_stays mem a b i j p s" "j < 8" "even (unat (Seq s))" and above: "eng_lastSeen e ! i ! j < Seq s"
    and i: "i < min (unat (eng_maxStations e)) (unat (AllocatedCount (sh_header (mem a))))"
  have same: "same_counters e1 (scan_all mem ts e)" using assms(2) by (simp add: logged_def)
  then have hist: "scan_history mem (ts @ us) e = scan_history mem ts e @ scan_history mem us e1"
    using same_counters_history by (simp add: scan_history_append)
  show "\<exists>q \<in> set (slot_log i j (scan_history mem (ts @ us) e)). Seq s \<le> q"
  proof (cases "eng_lastSeen e1 ! i ! j < Seq s")
    case True
    with assms(3) slot i logged_max [OF assms(2)] have "\<exists>q \<in> set (slot_log i j (scan_history mem us e1)). Seq s \<le> q"
      unfolding log_complete_def by metis
    with hist show ?thesis by auto
  next
    case False
    have "eng_lastSeen e1 ! i ! j = last (eng_lastSeen e ! i ! j # slot_log i j (scan_history mem ts e))"
      using lastSeen_last [OF assms(1)] same i by (simp add: same_counters_def)
    with False above have "slot_log i j (scan_history mem ts e) \<noteq> []" "Seq s \<le> last (slot_log i j (scan_history mem ts e))"
      by (auto split: if_splits)
    with hist show ?thesis by (intro bexI [of _ "last (slot_log i j (scan_history mem ts e))"]) simp_all
  qed
qed

text \<open>The last scans of the connections of a run, as pairs of start and end, one after the other.\<close>

fun in_order :: "nat \<Rightarrow> (nat \<times> nat) list \<Rightarrow> bool" where
  "in_order t [] \<longleftrightarrow> True"
| "in_order t ((t1, t2) # ends) \<longleftrightarrow> t < t1 \<and> t1 < t2 \<and> in_order t2 ends"

definition connections :: "(nat \<Rightarrow> accept_outcome) \<Rightarrow> nat \<Rightarrow> nat \<Rightarrow> nat" where
  "connections accepts j n = length (filter (\<lambda>i. accepts i \<noteq> AcceptErr) [j..<j + n])"

lemma connections_Suc: "connections accepts j (Suc n) = (if accepts j = AcceptErr then 0 else 1) + connections accepts (j + 1) n"
  by (simp add: connections_def upt_conv_Cons del: upt_Suc)

text \<open>A last scan of the run: started at one of the times of the history, ended at \<open>t2\<close>, and the history has caught up with
  what stayed in its slot meanwhile.\<close>

definition served :: "shm_run \<Rightarrow> nat list \<Rightarrow> TracerEngine \<Rightarrow> nat \<times> nat \<Rightarrow> bool" where
  "served mem ts e = (\<lambda>(t1, t2).
     t1 \<in> set ts \<and> (\<exists>e1 e2. last_scan mem t1 e1 = (t2, e2)) \<and> log_complete mem t1 t2 e (scan_history mem ts e))"

lemma served_append: "served mem ts e x \<Longrightarrow> served mem (ts @ us) e x"
  by (auto simp: served_def scan_history_append intro: log_complete_append)

lemma served_earlier:
  "wf_engine e \<Longrightarrow> logged mem ts e e1 \<Longrightarrow> served mem us e1 x \<Longrightarrow> served mem (ts @ us) e x"
  by (auto simp: served_def intro: log_complete_earlier)

lemma hot_served:
  assumes "hotHarvestLoop fuel mem reads t 0 e [] = Some (t1, k1, e1, st)" "wf_engine e"
  obtains ts u where "logged mem ts e e1" "t < u" "u < t1" "served mem ts e (u, t1)"
    "\<not> sw_failed (eng_writer e1) \<longrightarrow> sw_file (eng_writer e1) = sw_stream (eng_writer e1)"
proof -
  obtain ts u e0 where l: "logged mem ts e e0" "last_scan mem u e0 = (t1, e1)" "t < u" using hot_ends [OF assms(1)] by blast
  have "u < t1" using l(2) doScan_later by (fastforce simp: last_scan_def split: prod.splits)
  moreover have "logged mem (ts @ [u]) e e1" using l logged_trans logged_last_scan by blast
  moreover have "served mem (ts @ [u]) e (u, t1)"
    using l(2) last_scan_complete [OF assms(2) l(1,2)] by (auto simp: served_def)
  ultimately show thesis using that l(3) last_scan_file [OF l(2)] by blast
qed

lemma Run_served:
  "Run n fuel mem accepts j t e = Some (t', e') \<Longrightarrow> wf_engine e \<Longrightarrow>
   \<exists>ts ends. logged mem ts e e' \<and>
     (sw_file (eng_writer e) = sw_stream (eng_writer e) \<longrightarrow> \<not> sw_failed (eng_writer e') \<longrightarrow>
        sw_file (eng_writer e') = sw_stream (eng_writer e')) \<and>
     length ends = connections accepts j n \<and> in_order t ends \<and> t' = last (t # map snd ends) \<and> list_all (served mem ts e) ends"
proof (induction n arbitrary: j t e)
  case 0
  then show ?case by (intro exI [of _ "[]"]) (auto simp: logged_def connections_def)
next
  case (Suc n)
  show ?case
  proof (cases "accepts j")
    case AcceptErr
    with Suc show ?thesis by (simp add: connections_Suc)
  next
    case (AcceptConn reads)
    then obtain t1 k1 e1 st where h: "hotHarvestLoop fuel mem reads t 0 e [] = Some (t1, k1, e1, st)"
        "Run n fuel mem accepts (j + 1) t1 e1 = Some (t', e')"
      using Suc.prems(1) by (auto split: option.splits)
    obtain ts u where l: "logged mem ts e e1" "t < u" "u < t1" "served mem ts e (u, t1)"
        "\<not> sw_failed (eng_writer e1) \<longrightarrow> sw_file (eng_writer e1) = sw_stream (eng_writer e1)"
      by (rule hot_served [OF h(1) Suc.prems(2)])
    obtain us ends where r: "logged mem us e1 e'"
        "sw_file (eng_writer e1) = sw_stream (eng_writer e1) \<longrightarrow> \<not> sw_failed (eng_writer e') \<longrightarrow>
           sw_file (eng_writer e') = sw_stream (eng_writer e')"
        "length ends = connections accepts (j + 1) n" "in_order t1 ends" "t' = last (t1 # map snd ends)" "list_all (served mem us e1) ends"
      using Suc.IH [OF h(2) logged_wf [OF l(1) Suc.prems(2)]] by blast
    have "\<not> sw_failed (eng_writer e1)" if "\<not> sw_failed (eng_writer e')" using r(1) that by (auto simp: logged_def)
    moreover have "list_all (served mem (ts @ us) e) ((u, t1) # ends)"
      using l(4) r(6) served_append served_earlier [OF Suc.prems(2) l(1)] by (auto simp: list_all_iff)
    ultimately show ?thesis using l r AcceptConn logged_trans [OF l(1) r(1)]
      by (intro exI [of _ "ts @ us"] exI [of _ "(u, t1) # ends"]) (auto simp: connections_Suc)
  qed
qed

text \<open>C18: Over any number of accepts, failed ones among them, \<^verbatim>\<open>Run\<close> serves every connection to its end, one after the other. The
  log file then holds its old content and one line per record found by the scans, no record twice, and nothing is buffered
  when \<^verbatim>\<open>Run\<close> waits for the next connection. Each connection ended with a last scan, and for every finished record
  that stayed in its slot during one of these scans the log holds a record of the slot with at least its number. The
  run ends with the last of them, so failed accepts do no work.\<close>

theorem run_log:
  assumes "NewTracerEngine n os = Started e" "Run rounds fuel mem accepts j t e = Some (t', e')" "\<not> sw_failed (eng_writer e')"
  shows "\<exists>f ts ends. log_opened os = Inr f \<and>
     sw_file (eng_writer e') = file_bytes f @ concat (map (\<lambda>r. event_line (snd r)) (scan_history mem ts e)) \<and>
     (\<forall>i j. sorted_wrt (<) (slot_log i j (scan_history mem ts e))) \<and>
     length ends = length (filter (\<lambda>i. accepts i \<noteq> AcceptErr) [j..<j + rounds]) \<and>
     in_order t ends \<and> t' = last (t # map snd ends) \<and>
     (\<forall>(t1, t2) \<in> set ends. t1 \<in> set ts \<and> (\<exists>e1 e2. last_scan mem t1 e1 = (t2, e2)) \<and>
        log_complete mem t1 t2 e (scan_history mem ts e))"
proof -
  obtain f where f: "log_opened os = Inr f" "sw_stream (eng_writer e) = file_bytes f" "wf_engine e"
      "sw_file (eng_writer e) = sw_stream (eng_writer e)"
    using started_facts [OF assms(1)] by metis
  obtain ts ends where ts: "logged mem ts e e'" "sw_file (eng_writer e') = sw_stream (eng_writer e')"
      "length ends = connections accepts j rounds" "in_order t ends" "t' = last (t # map snd ends)" "list_all (served mem ts e) ends"
    using Run_served [OF assms(2) f(3)] f(4) assms(3) by blast
  then have "sw_file (eng_writer e') = file_bytes f @ concat (map (\<lambda>r. event_line (snd r)) (scan_history mem ts e))"
    using assms(3) f(2) by (simp add: logged_def)
  then show ?thesis using f(1) ts(3-6) slot_log_increasing [OF f(3)]
    unfolding connections_def list_all_iff served_def by blast
qed

definition demo_os_with :: "bytes \<Rightarrow> os_setup" where
  "demo_os_with bs = demo_os\<lparr>log_opened := Inr \<lparr>file_bytes = bs, file_room = 1000000, file_open = True\<rparr>\<rparr>"

lemma quiet_connection:
  assumes "quiet_from mem 40 m"
  obtains e t' k' e' st where "NewTracerEngine 1 (demo_os_with bs) = Started e"
    "hotHarvestLoop 42 mem (\<lambda>_. ReadFailed) 0 0 e [] = Some (t', k', e', st)" "\<not> sw_failed (eng_writer e')"
proof -
  obtain e where e: "NewTracerEngine 1 (demo_os_with bs) = Started e"
    by (auto simp: NewTracerEngine_Started demo_os_def demo_os_with_def)
  then have wf: "wf_engine e" and room: "room_for e (3 * 42)"
    unfolding NewTracerEngine_Started
    by (auto simp: wf_engine_def sw_ok_def bw_ok_def NewWriterSize_def demo_os_def demo_os_with_def room_for_def
        sw_fits_def osf.fits_def os_room_def)
  obtain t' k' e' st where h: "hotHarvestLoop 42 mem (\<lambda>_. ReadFailed) 0 0 e [] = Some (t', k', e', st)"
    using hot_returns [where reads = "\<lambda>_. ReadFailed" and K = 0 and k = 0 and t = 0, OF assms wf]
    by (fastforce simp: disconnect_def simp del: hotHarvestLoop.simps)
  from that [OF e h hot_room [OF h room]] show thesis .
qed

lemma demo_run_quiet: "quiet_from demo_run 40 (demo_shm 4)"
  by (simp add: quiet_from_def demo_run_def)

theorem run_log_witness:
  "\<exists>e t' e' ts t1. NewTracerEngine 1 (demo_os_with ''old'') = Started e \<and>
     Run 2 42 demo_run (\<lambda>j. if j = 0 then AcceptErr else AcceptConn (\<lambda>_. ReadFailed)) 0 0 e = Some (t', e') \<and>
     sw_file (eng_writer e') = ''old'' @ concat (map (\<lambda>r. event_line (snd r)) (scan_history demo_run ts e)) \<and>
     t1 \<in> set ts \<and> log_complete demo_run t1 t' e (scan_history demo_run ts e)"
proof -
  obtain e t' k' e' st where e: "NewTracerEngine 1 (demo_os_with ''old'') = Started e"
    "hotHarvestLoop 42 demo_run (\<lambda>_. ReadFailed) 0 0 e [] = Some (t', k', e', st)" "\<not> sw_failed (eng_writer e')"
    by (rule quiet_connection [OF demo_run_quiet])
  let ?acc = "\<lambda>j::nat. if j = 0 then AcceptErr else AcceptConn (\<lambda>_. ReadFailed)"
  have r: "Run 2 42 demo_run ?acc 0 0 e = Some (t', e')" using e(2) by (simp add: numeral_2_eq_2)
  obtain ts ends where ts: "sw_file (eng_writer e') = ''old'' @ concat (map (\<lambda>r. event_line (snd r)) (scan_history demo_run ts e))"
      "length ends = length (filter (\<lambda>i. ?acc i \<noteq> AcceptErr) [0..<0 + 2])" "t' = last (0 # map snd ends)"
      "\<forall>(t1, t2) \<in> set ends. t1 \<in> set ts \<and> (\<exists>e1 e2. last_scan demo_run t1 e1 = (t2, e2)) \<and>
         log_complete demo_run t1 t2 e (scan_history demo_run ts e)"
    using run_log [OF e(1) r e(3)] by (auto simp: demo_os_with_def)
  from ts(2) have "length ends = 1" by (simp add: numeral_2_eq_2)
  then obtain t1 t2 where "ends = [(t1, t2)]" by (cases ends) auto
  with ts(3,4) ts(1) e(1) r show ?thesis by auto
qed

theorem write_error_drops_records_witness:
  "\<exists>e t' k' e' st. sw_failed (eng_writer e) \<and>
     hotHarvestLoop 42 demo_run (\<lambda>_. ReadFailed) 0 0 e [] = Some (t', k', e', st) \<and>
     sw_file (eng_writer e') = sw_file (eng_writer e)"
proof -
  obtain e t' k' e' st where e: "hotHarvestLoop 42 demo_run (\<lambda>_. ReadFailed) 0 0 e [] = Some (t', k', e', st)"
    by (rule quiet_connection [OF demo_run_quiet])
  let ?b = "e\<lparr>eng_writer := (eng_writer e)\<lparr>sw_writer := (sw_writer (eng_writer e))\<lparr>bw_err := True\<rparr>\<rparr>\<rparr>"
  have b: "sw_failed (eng_writer ?b)" by simp
  have "same_counters e ?b" by (simp add: same_counters_def)
  from hot_same [OF e this] obtain b' where h: "hotHarvestLoop 42 demo_run (\<lambda>_. ReadFailed) 0 0 ?b [] = Some (t', k', b', st)"
    by blast
  from write_error_drops_records [OF b h] b h show ?thesis by blast
qed

end
