(* ===== verification/Log_Writer.thy ===== *)
theory Log_Writer
  imports Station
begin

text \<open>
  What \<^verbatim>\<open>StationWriter\<close> promises: an append-only log with a durable part (in the file) and a pending part (in the
  buffer). The specification is a small machine on these two texts; the buffered writer of \<^verbatim>\<open>structure/jsonl.go\<close> is shown to
  be a refinement of it, operation by operation and for every sequence of operations, failures included.
\<close>

section \<open>The specification\<close>

record log_spec =
  lg_durable :: bytes
  lg_pending :: bytes
  lg_broken :: bool

datatype log_op = AppendLine bytes | FlushAll

text \<open>What an operation may do and whether it reports an error. An append may move text to the file early but never
  loses or reorders any; a flush makes everything durable. An operation that fails leaves a
  prefix of the text in the file and breaks the log: from then on nothing changes and every operation fails.\<close>

inductive log_step :: "log_spec \<Rightarrow> log_op \<Rightarrow> bool \<Rightarrow> log_spec \<Rightarrow> bool" where
  append_ok: "\<not> lg_broken s \<Longrightarrow> \<not> lg_broken s' \<Longrightarrow> prefix (lg_durable s) (lg_durable s') \<Longrightarrow>
    lg_durable s' @ lg_pending s' = lg_durable s @ lg_pending s @ line \<Longrightarrow> log_step s (AppendLine line) False s'"
| append_fails: "\<not> lg_broken s \<Longrightarrow> lg_broken s' \<Longrightarrow> prefix (lg_durable s) (lg_durable s') \<Longrightarrow>
    prefix (lg_durable s') (lg_durable s @ lg_pending s @ line) \<Longrightarrow> log_step s (AppendLine line) True s'"
| flush_ok: "\<not> lg_broken s \<Longrightarrow>
    log_step s FlushAll False \<lparr>lg_durable = lg_durable s @ lg_pending s, lg_pending = [], lg_broken = False\<rparr>"
| flush_fails: "\<not> lg_broken s \<Longrightarrow> lg_broken s' \<Longrightarrow> prefix (lg_durable s) (lg_durable s') \<Longrightarrow>
    prefix (lg_durable s') (lg_durable s @ lg_pending s) \<Longrightarrow> log_step s FlushAll True s'"
| stuck: "lg_broken s \<Longrightarrow> log_step s op True s"

inductive_cases log_step_failedE: "log_step s op True s'"

inductive_simps log_step_flush: "log_step s FlushAll False s'"

fun op_text :: "log_op \<Rightarrow> bytes" where
  "op_text (AppendLine line) = line"
| "op_text FlushAll = []"

inductive log_run :: "log_spec \<Rightarrow> (log_op \<times> bool) list \<Rightarrow> log_spec \<Rightarrow> bool" where
  log_nil: "log_run s [] s"
| log_cons: "log_step s op err s' \<Longrightarrow> log_run s' ops s'' \<Longrightarrow> log_run s ((op, err) # ops) s''"

text \<open>Consequences of the specification alone: the file only grows, and holds a prefix of the text handed over; after a
  run that ends in a successful flush it holds all of it.\<close>

lemma log_step_grows: "log_step s op err s' \<Longrightarrow> prefix (lg_durable s) (lg_durable s')"
  by (induction rule: log_step.induct) auto

lemma log_step_text:
  "log_step s op err s' \<Longrightarrow> \<not> err \<Longrightarrow> \<not> lg_broken s \<and> \<not> lg_broken s' \<and>
     lg_durable s' @ lg_pending s' = lg_durable s @ lg_pending s @ op_text op"
  by (induction rule: log_step.induct) auto

lemma log_step_prefix:
  "log_step s op err s' \<Longrightarrow> prefix (lg_durable s') (lg_durable s @ lg_pending s @ op_text op)"
proof (induction rule: log_step.induct)
  case (append_ok s s' line)
  then show ?case by (metis op_text.simps(1) prefixI)
qed auto

lemma log_run_grows: "log_run s ops s' \<Longrightarrow> prefix (lg_durable s) (lg_durable s')"
  by (induction rule: log_run.induct) (auto intro: log_step_grows prefix_order.trans)

lemma log_run_broken: "log_run s ops s' \<Longrightarrow> lg_broken s \<Longrightarrow> lg_durable s' = lg_durable s"
proof (induction rule: log_run.induct)
  case (log_cons s op err s' ops s'')
  from log_cons(1,4) have "s' = s" by (cases rule: log_step.cases) auto
  with log_cons show ?case by simp
qed simp

lemma log_step_broken: "log_step s op True s' \<Longrightarrow> lg_broken s'"
  by (erule log_step_failedE) auto

text \<open>After a successful flush nothing is pending.\<close>

lemma log_step_flushed:
  "log_step s FlushAll False s' \<Longrightarrow> lg_pending s' = [] \<and> lg_durable s' = lg_durable s @ lg_pending s"
  by (simp add: log_step_flush)

lemma log_run_prefix:
  "log_run s ops s' \<Longrightarrow>
   prefix (lg_durable s') (lg_durable s @ lg_pending s @ concat (map (op_text \<circ> fst) ops))"
proof (induction rule: log_run.induct)
  case (log_cons s op err s' ops s'')
  show ?case
  proof (cases err)
    case True
    with log_cons(1) have "lg_broken s'" using log_step_broken by simp
    with log_run_broken [OF log_cons(2)] have "lg_durable s'' = lg_durable s'" .
    with log_step_prefix [OF log_cons(1)] show ?thesis by (simp add: prefix_order.trans [OF _ prefixI])
  next
    case False
    with log_step_text [OF log_cons(1)] log_cons(3) show ?thesis by (metis append.assoc concat.simps(2) fst_conv list.simps(9) o_apply)
  qed
qed simp

section \<open>The writer\<close>

datatype writer_op = WriteSlot StationData u64 u64 u64 bool u64 | FlushWriter

fun writer_step :: "writer_op \<Rightarrow> StationWriter \<Rightarrow> StationWriter \<times> bool" where
  "writer_step (WriteSlot s safeSeq tid addr isActive ts) sw = WriteSafeSlot sw s safeSeq tid addr isActive ts"
| "writer_step FlushWriter sw = sw_Flush sw"

fun writer_run :: "writer_op list \<Rightarrow> StationWriter \<Rightarrow> StationWriter \<times> bool list" where
  "writer_run [] sw = (sw, [])"
| "writer_run (op # ops) sw =
     (case writer_step op sw of (sw, err) \<Rightarrow> case writer_run ops sw of (sw, errs) \<Rightarrow> (sw, err # errs))"

fun spec_op :: "writer_op \<Rightarrow> log_op" where
  "spec_op (WriteSlot s safeSeq tid addr isActive ts) =
     AppendLine (slot_json (ProbeID (Header s)) safeSeq tid addr isActive ts @ [newline])"
| "spec_op FlushWriter = FlushAll"

text \<open>The abstraction.\<close>

definition log_view :: "StationWriter \<Rightarrow> log_spec" where
  "log_view sw = \<lparr>lg_durable = sw_file sw, lg_pending = bw_buf (sw_writer sw), lg_broken = sw_failed sw\<rparr>"

lemma log_view_stream: "lg_durable (log_view sw) @ lg_pending (log_view sw) = sw_stream sw"
  by (simp add: log_view_def sw_file_def sw_stream_def osf.stream_def)

lemma write_refines:
  "log_step (log_view sw) (AppendLine line)
     (snd (bw_write os_write (sw_writer sw) line)) (log_view (sw\<lparr>sw_line := l, sw_writer := fst (bw_write os_write (sw_writer sw) line)\<rparr>))"
proof (cases "sw_failed sw")
  case True
  then show ?thesis by (simp add: osf.write_stuck log_view_def sw_file_def stuck)
next
  case False
  obtain w e where w: "bw_write os_write (sw_writer sw) line = (w, e)" by (cases "bw_write os_write (sw_writer sw) line")
  have grows: "prefix (file_bytes (bw_sink (sw_writer sw))) (file_bytes (bw_sink w))" by (rule osf.write_grows [OF w])
  show ?thesis
  proof (cases e)
    case True
    with False w grows osf.write_prefix [OF w] osf.write_err [OF w] show ?thesis
      by (auto intro!: append_fails simp: log_view_def sw_file_def osf.stream_def)
  next
    case ok: False
    with False w grows osf.write_stream [of "sw_writer sw" line w] osf.write_err [OF w] show ?thesis
      by (auto intro!: append_ok simp: log_view_def sw_file_def osf.stream_def)
  qed
qed

lemma flush_refines: "log_step (log_view sw) FlushAll (snd (sw_Flush sw)) (log_view (fst (sw_Flush sw)))"
proof (cases "sw_failed sw")
  case True
  then show ?thesis by (simp add: sw_Flush_stuck log_view_def stuck)
next
  case False
  obtain w e where w: "bw_flush os_write (sw_writer sw) = (w, e)" by (cases "bw_flush os_write (sw_writer sw)")
  show ?thesis
  proof (cases e)
    case True
    with False w osf.flush_grows [OF w] osf.flush_prefix [OF w] osf.flush_err [OF w] show ?thesis
      by (auto intro!: flush_fails simp: sw_Flush_def log_view_def sw_file_def osf.stream_def)
  next
    case ok: False
    with w osf.flush_delivers [of "sw_writer sw" w] osf.flush_empties [of "sw_writer sw" w] osf.flush_err [OF w]
    have "log_view (fst (sw_Flush sw)) =
        \<lparr>lg_durable = lg_durable (log_view sw) @ lg_pending (log_view sw), lg_pending = [], lg_broken = False\<rparr>"
      by (simp add: sw_Flush_def log_view_def sw_file_def osf.stream_def)
    moreover have "\<not> snd (sw_Flush sw)" using w ok by (simp add: sw_Flush_def)
    ultimately show ?thesis using False flush_ok [of "log_view sw"] by (simp add: log_view_def)
  qed
qed

lemma writer_step_refines:
  "log_step (log_view sw) (spec_op op) (snd (writer_step op sw)) (log_view (fst (writer_step op sw)))"
proof (cases op)
  case (WriteSlot s safeSeq tid addr isActive ts)
  then show ?thesis
    using write_refines [of sw "slot_json (ProbeID (Header s)) safeSeq tid addr isActive ts @ [newline]"]
    by (simp add: WriteSafeSlot_def marshal_eq Let_def case_prod_unfold)
next
  case FlushWriter
  then show ?thesis using flush_refines [of sw] by simp
qed

lemma writer_run_refines:
  "log_run (log_view sw) (zip (map spec_op ops) (snd (writer_run ops sw))) (log_view (fst (writer_run ops sw)))"
proof (induction ops arbitrary: sw)
  case (Cons op ops)
  from log_cons [OF writer_step_refines [of sw op] Cons [of "fst (writer_step op sw)"]] show ?case
    by (simp add: case_prod_unfold)
qed (simp add: log_nil)

lemma length_writer_run: "length (snd (writer_run ops sw)) = length ops"
  by (induction ops arbitrary: sw) (simp_all add: case_prod_unfold)

lemma writer_run_append:
  "writer_run (ops @ [op]) sw =
     (fst (writer_step op (fst (writer_run ops sw))), snd (writer_run ops sw) @ [snd (writer_step op (fst (writer_run ops sw)))])"
  by (induction ops arbitrary: sw) (simp_all add: case_prod_unfold)

lemma writer_run_stream:
  "set (snd (writer_run ops sw)) \<subseteq> {False} \<Longrightarrow>
   sw_stream (fst (writer_run ops sw)) = sw_stream sw @ concat (map (op_text \<circ> spec_op) ops)"
proof (induction ops arbitrary: sw)
  case (Cons op ops)
  obtain sw1 e where s: "writer_step op sw = (sw1, e)" by (cases "writer_step op sw")
  have "sw_stream sw1 = sw_stream sw @ op_text (spec_op op)"
    using log_step_text [OF writer_step_refines [of sw op]] Cons.prems
    by (simp add: s log_view_stream case_prod_unfold)
  with Cons.IH [of sw1] Cons.prems show ?case by (simp add: s case_prod_unfold)
qed simp

text \<open>C7: \<^verbatim>\<open>StationWriter\<close> refines the append-only log: every sequence of \<^verbatim>\<open>WriteSafeSlot\<close> and \<^verbatim>\<open>Flush\<close>, with the errors it
  returns, is a run of the specification under the view of file, buffer and error flag. So the file always holds a
  prefix of its old content and the lines in order, and all of it after a successful flush.\<close>

theorem writer_refines_log:
  "log_run (log_view sw) (zip (map spec_op ops) (snd (writer_run ops sw))) (log_view (fst (writer_run ops sw))) \<and>
   prefix (sw_file (fst (writer_run ops sw))) (sw_stream sw @ concat (map (op_text \<circ> spec_op) ops)) \<and>
   (snd (writer_run (ops @ [FlushWriter]) sw) = replicate (length ops + 1) False \<longrightarrow>
      sw_file (fst (writer_run (ops @ [FlushWriter]) sw)) = sw_stream sw @ concat (map (op_text \<circ> spec_op) ops))"
proof (intro conjI impI)
  show run: "log_run (log_view sw) (zip (map spec_op ops) (snd (writer_run ops sw))) (log_view (fst (writer_run ops sw)))"
    by (rule writer_run_refines)
  have "map (op_text \<circ> fst) (zip (map spec_op ops) (snd (writer_run ops sw))) = map (op_text \<circ> spec_op) ops"
    by (simp add: length_writer_run flip: map_map)
  with log_run_prefix [OF run]
  show "prefix (sw_file (fst (writer_run ops sw))) (sw_stream sw @ concat (map (op_text \<circ> spec_op) ops))"
    by (simp add: log_view_def sw_stream_def sw_file_def osf.stream_def)
  assume all: "snd (writer_run (ops @ [FlushWriter]) sw) = replicate (length ops + 1) False"
  have "set (snd (writer_run (ops @ [FlushWriter]) sw)) \<subseteq> {False}" unfolding all by auto
  then have ok: "set (snd (writer_run ops sw)) \<subseteq> {False}" "\<not> snd (sw_Flush (fst (writer_run ops sw)))"
    by (simp_all add: writer_run_append)
  have "lg_durable (log_view (fst (sw_Flush (fst (writer_run ops sw))))) = sw_stream (fst (writer_run ops sw))"
    using log_step_flushed [of "log_view (fst (writer_run ops sw))"] flush_refines [of "fst (writer_run ops sw)"] ok(2)
    by (simp add: log_view_stream)
  then show "sw_file (fst (writer_run (ops @ [FlushWriter]) sw)) = sw_stream sw @ concat (map (op_text \<circ> spec_op) ops)"
    using writer_run_stream [OF ok(1)] by (simp add: writer_run_append log_view_def)
qed

definition spec_writer :: StationWriter where
  "spec_writer = \<lparr>sw_writer = NewWriterSize \<lparr>file_bytes = [], file_room = 500, file_open = True\<rparr> 64, sw_line = []\<rparr>"

theorem writer_refines_log_witness:
  "snd (writer_run [WriteSlot zero_station 2 1 0 True 9, FlushWriter] spec_writer) = [False, False] \<and>
   sw_file (fst (writer_run [WriteSlot zero_station 2 1 0 True 9, FlushWriter] spec_writer)) =
     slot_json 0 2 1 0 True 9 @ [newline]"
proof -
  have "snd (writer_run [WriteSlot zero_station 2 1 0 True 9, FlushWriter] spec_writer) = [False, False]" by code_simp
  moreover have "sw_stream spec_writer = []" by (simp add: spec_writer_def sw_stream_def osf.stream_def NewWriterSize_def)
  ultimately show ?thesis
    using writer_refines_log [of spec_writer "[WriteSlot zero_station 2 1 0 True 9]"]
    by (simp add: eval_nat_numeral zero_station_def)
qed

end
