(* ===== verification/Go_Json.thy ===== *)
theory Go_Json
  imports Go_Strings
begin

text \<open>
  What the sources use of \<^verbatim>\<open>encoding/json\<close>: the syntax check and value reading of \<^verbatim>\<open>json.Unmarshal\<close> (white space,
  literals, numbers, strings with their escapes, arrays, objects, the nesting limit) and the folding of
  object keys. The parser is fuelled by the length of its input; \<open>parse_enough\<close> shows that more fuel
  never changes a result.
\<close>

section \<open>Runes\<close>

datatype json =
  JNull | JBool bool | JNum string | JStr string | JArr "json list" | JObj "(string \<times> json) list"

definition utf8_encode :: "nat \<Rightarrow> string" where
  "utf8_encode r =
     (if r < 0x80 then [char_of r]
      else if r < 0x800 then [char_of (0xC0 + r div 64), char_of (0x80 + r mod 64)]
      else if r < 0x10000 then
        [char_of (0xE0 + r div 4096), char_of (0x80 + r div 64 mod 64), char_of (0x80 + r mod 64)]
      else [char_of (0xF0 + r div 262144), char_of (0x80 + r div 4096 mod 64),
            char_of (0x80 + r div 64 mod 64), char_of (0x80 + r mod 64)])"

definition rune_error :: string where
  "rune_error = [CHR 0xEF, CHR 0xBF, CHR 0xBD]"

definition byte_in :: "char \<Rightarrow> nat \<Rightarrow> nat \<Rightarrow> bool" where
  "byte_in c lo hi \<longleftrightarrow> lo \<le> of_char c \<and> (of_char c :: nat) \<le> hi"

text \<open>The length of the well-formed UTF-8 sequence at the front, 0 if there is none
  (\<^verbatim>\<open>utf8.DecodeRune\<close> then reports an error of width 1).\<close>

definition utf8_len :: "string \<Rightarrow> nat" where
  "utf8_len s =
     (case s of
        [] \<Rightarrow> 0
      | a # r \<Rightarrow>
        if byte_in a 0x00 0x7F then 1
        else (case r of [] \<Rightarrow> 0 | b # r \<Rightarrow>
          if byte_in a 0xC2 0xDF then (if byte_in b 0x80 0xBF then 2 else 0)
          else (case r of [] \<Rightarrow> 0 | c # r \<Rightarrow>
            if byte_in a 0xE0 0xEF then
              (if byte_in b (if a = CHR 0xE0 then 0xA0 else 0x80) (if a = CHR 0xED then 0x9F else 0xBF) \<and>
                  byte_in c 0x80 0xBF then 3 else 0)
            else (case r of [] \<Rightarrow> 0 | d # r \<Rightarrow>
              if byte_in a 0xF0 0xF4 \<and>
                 byte_in b (if a = CHR 0xF0 then 0x90 else 0x80) (if a = CHR 0xF4 then 0x8F else 0xBF) \<and>
                 byte_in c 0x80 0xBF \<and> byte_in d 0x80 0xBF then 4 else 0))))"

section \<open>Strings\<close>

definition hex_nibble :: "char \<Rightarrow> nat option" where
  "hex_nibble c =
     (if byte_in c 48 57 then Some (of_char c - 48)
      else if byte_in c 97 102 then Some (of_char c - 87)
      else if byte_in c 65 70 then Some (of_char c - 55) else None)"

text \<open>Four hexadecimal digits at the front of a string.\<close>

fun hex4 :: "string \<Rightarrow> nat option" where
  "hex4 (a # b # c # d # r) =
     (case (hex_nibble a, hex_nibble b, hex_nibble c, hex_nibble d) of
        (Some a, Some b, Some c, Some d) \<Rightarrow> Some (((a * 16 + b) * 16 + c) * 16 + d)
      | _ \<Rightarrow> None)"
| "hex4 _ = None"

text \<open>The low surrogate of an escape \<^verbatim>\<open>\uXXXX\<close> at the front, if there is one.\<close>

definition low_surrogate :: "string \<Rightarrow> nat option" where
  "low_surrogate s =
     (if take 2 s = [backslash, CHR ''u''] then
        (case hex4 (drop 2 s) of Some v \<Rightarrow> if 0xDC00 \<le> v \<and> v < 0xE000 then Some v else None | None \<Rightarrow> None)
      else None)"

definition simple_escape :: "char \<Rightarrow> char option" where
  "simple_escape c =
     map_of [(dquote, dquote), (backslash, backslash), (CHR ''/'', CHR ''/''), (CHR ''b'', CHR 0x08),
             (CHR ''f'', CHR 0x0C), (CHR ''n'', CHR 0x0A), (CHR ''r'', CHR 0x0D), (CHR ''t'', CHR 0x09)] c"

definition cons_to :: "string \<Rightarrow> (string \<times> string) option \<Rightarrow> (string \<times> string) option" where
  "cons_to w r = map_option (\<lambda>(s, rest). (w @ s, rest)) r"

text \<open>The body of a string after its opening quote: the decoded bytes and the input after the closing
  quote. Control characters and unknown escapes are syntax errors; bytes that are not UTF-8 and
  lone surrogates become U+FFFD.\<close>

fun str_body :: "string \<Rightarrow> (string \<times> string) option" where
  "str_body [] = None"
| "str_body (c # cs) =
     (if c = dquote then Some ([], cs)
      else if c = backslash then
        (if take 1 cs = ''u'' then
           (case hex4 (drop 1 cs) of
              None \<Rightarrow> None
            | Some v \<Rightarrow>
                if 0xD800 \<le> v \<and> v < 0xDC00 then
                  (case low_surrogate (drop 5 cs) of
                     Some w \<Rightarrow> cons_to (utf8_encode (0x10000 + (v - 0xD800) * 1024 + (w - 0xDC00)))
                                 (str_body (drop 11 cs))
                   | None \<Rightarrow> cons_to rune_error (str_body (drop 5 cs)))
                else if 0xDC00 \<le> v \<and> v < 0xE000 then cons_to rune_error (str_body (drop 5 cs))
                else cons_to (utf8_encode v) (str_body (drop 5 cs)))
         else (case cs of
           [] \<Rightarrow> None
         | e # _ \<Rightarrow> (case simple_escape e of None \<Rightarrow> None | Some x \<Rightarrow> cons_to [x] (str_body (drop 1 cs)))))
      else if byte_in c 0x00 0x1F then None
      else if utf8_len (c # cs) = 0 then cons_to rune_error (str_body cs)
      else cons_to (take (utf8_len (c # cs)) (c # cs)) (str_body (drop (utf8_len (c # cs) - 1) cs)))"

declare str_body.simps(2) [simp del]

lemma cons_to_Some [simp]: "cons_to w x = Some (v, r) \<longleftrightarrow> (\<exists>v'. x = Some (v', r) \<and> v = w @ v')"
  by (auto simp: cons_to_def)

lemma str_body_step:
  "str_body (c # cs) = Some (v, r) \<Longrightarrow> r = cs \<or> (\<exists>k v'. str_body (drop k cs) = Some (v', r))"
  by (subst (asm) str_body.simps)
     (auto split: if_splits option.splits list.splits intro: exI [of _ 0] simp del: drop_Suc_Cons)

lemma str_body_shorter: "str_body s = Some (v, r) \<Longrightarrow> length r < length s"
proof (induction "length s" arbitrary: s v rule: less_induct)
  case less
  then obtain c cs where s: "s = c # cs" by (cases s) auto
  from str_body_step [OF less.prems [unfolded s]] show ?case
  proof
    assume "\<exists>k v'. str_body (drop k cs) = Some (v', r)"
    then obtain k v' where "str_body (drop k cs) = Some (v', r)" by blast
    with less.hyps [of "drop k cs" v'] have "length r < length (drop k cs)" by (simp add: s)
    then show ?thesis by (simp add: s)
  qed (simp add: s)
qed

text \<open>A string of printable ASCII characters other than the quote and the backslash is its own body.\<close>

definition plain_char :: "char \<Rightarrow> bool" where
  "plain_char c \<longleftrightarrow> byte_in c 0x20 0x7F \<and> c \<noteq> dquote \<and> c \<noteq> backslash"

lemma str_body_plain: "\<forall>c \<in> set s. plain_char c \<Longrightarrow> str_body (s @ dquote # r) = Some (s, r)"
proof (induction s)
  case Nil
  then show ?case by (simp add: str_body.simps(2))
next
  case (Cons c cs)
  then have "utf8_len (c # cs @ dquote # r) = 1" "\<not> byte_in c 0 0x1F" "c \<noteq> dquote" "c \<noteq> backslash"
    by (auto simp: plain_char_def utf8_len_def byte_in_def)
  with Cons show ?case by (simp add: str_body.simps(2))
qed

section \<open>Numbers and literals\<close>

definition scan_frac :: "string \<Rightarrow> (string \<times> string) option" where
  "scan_frac s =
     (if take 1 s = ''.'' then
        let d = takeWhile is_digit (drop 1 s) in
        if d = [] then None else Some (''.'' @ d, dropWhile is_digit (drop 1 s))
      else Some ([], s))"

definition scan_exp :: "string \<Rightarrow> (string \<times> string) option" where
  "scan_exp s =
     (if take 1 s = ''e'' \<or> take 1 s = ''E'' then
        let sg = takeWhile (\<lambda>c. c = CHR ''+'' \<or> c = CHR ''-'') (take 1 (drop 1 s));
            t = drop (1 + length sg) s;
            d = takeWhile is_digit t
        in if d = [] then None else Some (take 1 s @ sg @ d, dropWhile is_digit t)
      else Some ([], s))"

definition scan_int :: "string \<Rightarrow> (string \<times> string) option" where
  "scan_int s =
     (if take 1 s = ''0'' then Some (''0'', drop 1 s)
      else let d = takeWhile is_digit s in if d = [] then None else Some (d, dropWhile is_digit s))"

definition scan_number :: "string \<Rightarrow> (string \<times> string) option" where
  "scan_number s =
     (let sg = takeWhile (\<lambda>c. c = CHR ''-'') (take 1 s) in
      case scan_int (drop (length sg) s) of None \<Rightarrow> None | Some (i, s) \<Rightarrow>
      (case scan_frac s of None \<Rightarrow> None | Some (f, s) \<Rightarrow>
      (case scan_exp s of None \<Rightarrow> None | Some (e, s) \<Rightarrow> Some (sg @ i @ f @ e, s))))"

lemma length_dropWhile_Suc: "takeWhile P s \<noteq> [] \<Longrightarrow> length (dropWhile P s) < length s"
  by (cases s) (auto simp: length_dropWhile_le le_imp_less_Suc split: if_splits)

lemma scan_number_shorter: "scan_number s = Some (v, r) \<Longrightarrow> length r < length s"
proof -
  assume a: "scan_number s = Some (v, r)"
  have i: "length r' < length t" if "scan_int t = Some (x, r')" for t x r'
    using that length_dropWhile_Suc [of is_digit t]
    by (cases t) (auto simp: scan_int_def Let_def split: if_splits)
  have f: "length r' \<le> length t" if "scan_frac t = Some (x, r')" for t x r'
    using that length_dropWhile_le [of is_digit "drop 1 t"]
    by (auto simp: scan_frac_def Let_def split: if_splits)
  have e: "length r' \<le> length t" if "scan_exp t = Some (x, r')" for t x r'
  proof -
    have "length (dropWhile is_digit (drop k t)) \<le> length t" for k
      using length_dropWhile_le [of is_digit "drop k t"] by simp
    then show ?thesis using that by (auto simp: scan_exp_def Let_def split: if_splits)
  qed
  from a obtain s1 s2 x1 x2 x3 where *: "scan_int (drop (length (takeWhile (\<lambda>c. c = CHR ''-'') (take 1 s))) s) = Some (x1, s1)"
    "scan_frac s1 = Some (x2, s2)" "scan_exp s2 = Some (x3, r)"
    by (auto simp: scan_number_def Let_def split: option.splits)
  from i [OF *(1)] f [OF *(2)] e [OF *(3)] show ?thesis by simp
qed

text \<open>A decimal number is read back when no digit, point or exponent follows.\<close>

lemma scan_number_dec:
  assumes "\<not> is_digit c" "c \<noteq> CHR ''.''" "c \<noteq> CHR ''e''" "c \<noteq> CHR ''E''"
  shows "scan_number (dec n @ c # r) = Some (dec n, c # r)"
proof -
  obtain x xs where d: "dec n = x # xs" by (cases "dec n") auto
  have digits: "\<forall>y \<in> set (dec n). is_digit y" by (rule dec_digits)
  have x: "x \<noteq> CHR ''-''" using digits by (auto simp: d is_digit_def)
  have "scan_int (dec n @ c # r) = Some (dec n, c # r)"
  proof (cases "x = CHR ''0''")
    case True
    then have "n = 0" using dec_hd_zero [of n] by (simp add: d)
    then show ?thesis by (simp add: scan_int_def dec_zero)
  next
    case False
    have "takeWhile is_digit (dec n @ c # r) = dec n" "dropWhile is_digit (dec n @ c # r) = c # r"
      using digits assms(1) by (simp_all add: takeWhile_append_stop dropWhile_append_stop)
    then show ?thesis using False by (simp add: scan_int_def d)
  qed
  with x show ?thesis
    using assms(2-) by (simp add: scan_number_def d scan_frac_def scan_exp_def)
qed

definition scan_literal :: "string \<Rightarrow> (json \<times> string) option" where
  "scan_literal s =
     (if take 4 s = ''null'' then Some (JNull, drop 4 s)
      else if take 4 s = ''true'' then Some (JBool True, drop 4 s)
      else if take 5 s = ''false'' then Some (JBool False, drop 5 s) else None)"

lemma scan_literal_shorter: "scan_literal s = Some (v, r) \<Longrightarrow> length r < length s"
  by (cases s) (auto simp: scan_literal_def split: if_splits)

section \<open>Values\<close>

definition json_space :: "char \<Rightarrow> bool" where
  "json_space c \<longleftrightarrow> c = CHR 0x20 \<or> c = CHR 0x09 \<or> c = CHR 0x0A \<or> c = CHR 0x0D"

definition skip_ws :: "string \<Rightarrow> string" where
  "skip_ws s = dropWhile json_space s"

lemma skip_ws_length: "length (skip_ws s) \<le> length s"
  by (simp add: skip_ws_def length_dropWhile_le)

lemma skip_ws_Cons_length: "skip_ws s = c # r \<Longrightarrow> length r < length s"
  using skip_ws_length [of s] by simp

definition max_depth :: nat where
  "max_depth = 10000"

text \<open>A value, the members of an object after its brace, the elements of an array after its bracket.
  The fuel bounds the number of nested calls, each of which has consumed a byte; \<open>d\<close> is the number of
  open objects and arrays.\<close>

fun parse_value :: "nat \<Rightarrow> nat \<Rightarrow> string \<Rightarrow> (json \<times> string) option"
  and parse_members :: "nat \<Rightarrow> nat \<Rightarrow> string \<Rightarrow> ((string \<times> json) list \<times> string) option"
  and parse_elements :: "nat \<Rightarrow> nat \<Rightarrow> string \<Rightarrow> (json list \<times> string) option" where
  "parse_value 0 d s = None"
| "parse_value (Suc f) d s =
     (case skip_ws s of
        [] \<Rightarrow> None
      | c # r \<Rightarrow>
        if c = CHR ''{'' then
          (if max_depth \<le> d then None
           else if take 1 (skip_ws r) = ''}'' then Some (JObj [], drop 1 (skip_ws r))
           else map_option (\<lambda>(ms, r). (JObj ms, r)) (parse_members f (Suc d) r))
        else if c = CHR ''['' then
          (if max_depth \<le> d then None
           else if take 1 (skip_ws r) = '']'' then Some (JArr [], drop 1 (skip_ws r))
           else map_option (\<lambda>(vs, r). (JArr vs, r)) (parse_elements f (Suc d) r))
        else if c = dquote then map_option (\<lambda>(v, r). (JStr v, r)) (str_body r)
        else if c = CHR ''-'' \<or> is_digit c then map_option (\<lambda>(v, r). (JNum v, r)) (scan_number (c # r))
        else scan_literal (c # r))"
| "parse_members 0 d s = None"
| "parse_members (Suc f) d s =
     (case skip_ws s of
        [] \<Rightarrow> None
      | c # r \<Rightarrow>
        if c \<noteq> dquote then None else
        (case str_body r of None \<Rightarrow> None | Some (key, r) \<Rightarrow>
        if take 1 (skip_ws r) \<noteq> '':'' then None else
        (case parse_value f d (drop 1 (skip_ws r)) of None \<Rightarrow> None | Some (v, r) \<Rightarrow>
        (case skip_ws r of [] \<Rightarrow> None | e # r \<Rightarrow>
        if e = CHR ''}'' then Some ([(key, v)], r)
        else if e = CHR '','' then map_option (\<lambda>(ms, r). ((key, v) # ms, r)) (parse_members f d r)
        else None))))"
| "parse_elements 0 d s = None"
| "parse_elements (Suc f) d s =
     (case parse_value f d s of None \<Rightarrow> None | Some (v, r) \<Rightarrow>
      (case skip_ws r of [] \<Rightarrow> None | e # r \<Rightarrow>
      if e = CHR '']'' then Some ([v], r)
      else if e = CHR '','' then map_option (\<lambda>(vs, r). (v # vs, r)) (parse_elements f d r)
      else None))"

text \<open>\<^verbatim>\<open>json.Unmarshal\<close> up to the value: one value and white space, nothing else.\<close>

definition json_value :: "string \<Rightarrow> json option" where
  "json_value s =
     (case parse_value (2 * length s + 2) 0 s of
        Some (v, r) \<Rightarrow> if skip_ws r = [] then Some v else None
      | None \<Rightarrow> None)"

lemma take1_Cons: "take 1 s = [c] \<longleftrightarrow> (\<exists>r. s = c # r)"
  by (cases s) auto

lemma parse_shorter:
  "parse_value f d s = Some (v, r) \<Longrightarrow> length r < length s"
  "parse_members f d s = Some (ms, r) \<Longrightarrow> length r < length s"
  "parse_elements f d s = Some (vs, r) \<Longrightarrow> length r < length s"
proof (induction f arbitrary: d s v ms vs r)
  case (Suc f)
  {
    case 1
    then obtain c t where t: "skip_ws s = c # t" by (auto split: list.splits)
    have l: "length (skip_ws t) - Suc 0 \<le> length t" using skip_ws_length [of t] by simp
    have "length r < length (c # t) \<or> length r \<le> length t"
      using 1 t Suc.IH(2) [of "Suc d" t _ r] Suc.IH(3) [of "Suc d" t _ r] str_body_shorter [of t _ r]
        scan_number_shorter [of "c # t" _ r] scan_literal_shorter [of "c # t" _ r] l
      by (auto split: if_splits simp del: length_Cons drop_Suc_Cons)
    with skip_ws_Cons_length [OF t] show ?case by auto
  next
    case 2
    then obtain c t key u v' w e x where
      t: "skip_ws s = c # t" "str_body t = Some (key, u)" "parse_value f d (drop 1 (skip_ws u)) = Some (v', w)"
        "skip_ws w = e # x" "r = x \<or> (\<exists>ms'. parse_members f d x = Some (ms', r))"
      by (auto split: list.splits if_splits option.splits)
    have "length w < length (skip_ws u)" using Suc.IH(1) [OF t(3)] by simp
    with skip_ws_Cons_length [OF t(1)] str_body_shorter [OF t(2)] skip_ws_length [of u] skip_ws_Cons_length [OF t(4)]
      t(5) Suc.IH(2) [of d x _ r] show ?case by fastforce
  next
    case 3
    then obtain v' w e x where
      t: "parse_value f d s = Some (v', w)"
        "skip_ws w = e # x" "r = x \<or> (\<exists>vs'. parse_elements f d x = Some (vs', r))"
      by (auto split: list.splits if_splits option.splits)
    with Suc.IH(1) [OF t(1)] skip_ws_Cons_length [OF t(2)] Suc.IH(3) [of d x _ r] show ?case by fastforce
  }
qed simp_all

text \<open>One step of each function depends on the fuel only through its recursive calls.\<close>

lemma parse_value_cong:
  assumes "\<And>c t. skip_ws s = c # t \<Longrightarrow> parse_members f (Suc d) t = parse_members g (Suc d) t"
    "\<And>c t. skip_ws s = c # t \<Longrightarrow> parse_elements f (Suc d) t = parse_elements g (Suc d) t"
  shows "parse_value (Suc f) d s = parse_value (Suc g) d s"
proof (cases "skip_ws s")
  case (Cons c t)
  show ?thesis unfolding parse_value.simps Cons list.case assms [OF Cons] ..
qed simp

lemma parse_members_cong:
  assumes "\<And>c t key u. skip_ws s = c # t \<Longrightarrow> str_body t = Some (key, u) \<Longrightarrow>
      parse_value f d (drop 1 (skip_ws u)) = parse_value g d (drop 1 (skip_ws u))"
    "\<And>c t key u v w e x. skip_ws s = c # t \<Longrightarrow> str_body t = Some (key, u) \<Longrightarrow>
      parse_value g d (drop 1 (skip_ws u)) = Some (v, w) \<Longrightarrow> skip_ws w = e # x \<Longrightarrow> parse_members f d x = parse_members g d x"
  shows "parse_members (Suc f) d s = parse_members (Suc g) d s"
proof -
  have "(case parse_value f d (drop 1 (skip_ws u)) of None \<Rightarrow> None | Some (v, r) \<Rightarrow>
        (case skip_ws r of [] \<Rightarrow> None | e # r \<Rightarrow>
        if e = CHR ''}'' then Some ([(key, v)], r)
        else if e = CHR '','' then map_option (\<lambda>(ms, r). ((key, v) # ms, r)) (parse_members f d r) else None)) =
      (case parse_value g d (drop 1 (skip_ws u)) of None \<Rightarrow> None | Some (v, r) \<Rightarrow>
        (case skip_ws r of [] \<Rightarrow> None | e # r \<Rightarrow>
        if e = CHR ''}'' then Some ([(key, v)], r)
        else if e = CHR '','' then map_option (\<lambda>(ms, r). ((key, v) # ms, r)) (parse_members g d r) else None))"
    if "skip_ws s = c # t" "str_body t = Some (key, u)" for c t key u
    unfolding assms(1) [OF that]
    by (simp split: option.split list.split prod.split add: assms(2) [OF that] del: parse_value.simps parse_members.simps)
  then show ?thesis
    unfolding parse_members.simps by (auto split: list.split option.split simp del: parse_value.simps parse_members.simps)
qed

lemma parse_elements_cong:
  assumes "parse_value f d s = parse_value g d s"
    "\<And>v w e x. parse_value g d s = Some (v, w) \<Longrightarrow> skip_ws w = e # x \<Longrightarrow> parse_elements f d x = parse_elements g d x"
  shows "parse_elements (Suc f) d s = parse_elements (Suc g) d s"
  unfolding parse_elements.simps assms(1)
  by (auto split: list.split option.split simp: assms(2) simp del: parse_value.simps parse_elements.simps)

text \<open>Enough fuel: a result does not depend on it, so \<open>None\<close> is a syntax error.\<close>

lemma parse_enough:
  "2 * length s < f \<Longrightarrow> 2 * length s < g \<Longrightarrow> parse_value f d s = parse_value g d s"
  "2 * length s < f \<Longrightarrow> 2 * length s < g \<Longrightarrow> parse_members f d s = parse_members g d s"
  "2 * length s + 1 < f \<Longrightarrow> 2 * length s + 1 < g \<Longrightarrow> parse_elements f d s = parse_elements g d s"
proof (induction f arbitrary: g d s)
  case (Suc f)
  {
    case 1
    then obtain g' where g: "g = Suc g'" by (cases g) auto
    have "2 * length t + 1 < f" "2 * length t + 1 < g'" if "skip_ws s = c # t" for c t
      using skip_ws_Cons_length [OF that] 1 g by auto
    with Suc.IH(2,3) show ?case unfolding g by (intro parse_value_cong) (meson add_lessD1)+
  next
    case 2
    then obtain g' where g: "g = Suc g'" by (cases g) auto
    show ?case unfolding g
    proof (rule parse_members_cong)
      fix c t key u
      assume t: "skip_ws s = c # t" "str_body t = Some (key, u)"
      have u: "length (drop 1 (skip_ws u)) + 1 < length s"
        using skip_ws_Cons_length [OF t(1)] str_body_shorter [OF t(2)] skip_ws_length [of u] by simp
      then show "parse_value f d (drop 1 (skip_ws u)) = parse_value g' d (drop 1 (skip_ws u))"
        using 2 g by (intro Suc.IH(1)) auto
      show "parse_members f d x = parse_members g' d x"
        if "parse_value g' d (drop 1 (skip_ws u)) = Some (v, w)" "skip_ws w = e # x" for v w e x
        using parse_shorter(1) [OF that(1)] skip_ws_Cons_length [OF that(2)] u 2 g by (intro Suc.IH(2)) auto
    qed
  next
    case 3
    then obtain g' where g: "g = Suc g'" by (cases g) auto
    show ?case unfolding g
    proof (rule parse_elements_cong)
      show "parse_value f d s = parse_value g' d s" using 3 g by (intro Suc.IH(1)) auto
      show "parse_elements f d x = parse_elements g' d x"
        if "parse_value g' d s = Some (v, w)" "skip_ws w = e # x" for v w e x
        using parse_shorter(1) [OF that(1)] skip_ws_Cons_length [OF that(2)] 3 g by (intro Suc.IH(3)) auto
    qed
  }
qed simp_all

end
