(* ===== verification/Export_Common.thy ===== *)
theory Export_Common
  imports Go_Json Go_Bufio Station
begin

text \<open>
  \<^verbatim>\<open>export/common.go\<close>: the record of one trace line, its decoding by \<^verbatim>\<open>json.Unmarshal\<close>, \<^verbatim>\<open>StreamJSONL\<close> over a file,
  and the string helpers of the exporters. The central fact is the round trip: every line the
  tracer writes decodes to the record it was written from.
\<close>

section \<open>Constants and records\<close>

definition DefaultDatabaseName :: string where "DefaultDatabaseName = ''coro_tracer''"
definition DefaultTableName :: string where "DefaultTableName = ''coro_trace_events''"

record TraceRecord =
  rec_ProbeID :: u64
  rec_TID :: u64
  rec_Addr :: string
  rec_Seq :: u64
  rec_IsActive :: bool
  rec_TS :: u64

definition zero_record :: TraceRecord where
  "zero_record =
     \<lparr>rec_ProbeID = 0, rec_TID = 0, rec_Addr = [], rec_Seq = 0, rec_IsActive = False, rec_TS = 0\<rparr>"

section \<open>Errors\<close>

text \<open>The errors \<^verbatim>\<open>fmt.Errorf\<close> builds: a message around another error, a message that names a path or a
  line, and the errors at the bottom.\<close>

datatype export_err =
    OsError os_err
  | JsonError
  | LineTooLong
  | WriteError
  | Context string export_err
  | ContextPath string string export_err
  | ContextLine string nat export_err
  | CliError string string
  | Unsupported string

section \<open>Decoding a line\<close>

text \<open>Keys match a field by name, else by the case folding of \<^verbatim>\<open>encoding/json\<close>: ASCII letters without case, and
  the two runes beyond ASCII whose folding is an ASCII letter (U+017F and U+212A).\<close>

fun fold_key :: "string \<Rightarrow> string" where
  "fold_key [] = []"
| "fold_key (c # cs) =
     (if c = CHR 0xC5 \<and> take 1 cs = [CHR 0xBF] then CHR ''s'' # fold_key (drop 1 cs)
      else if c = CHR 0xE2 \<and> take 2 cs = [CHR 0x84, CHR 0xAA] then CHR ''k'' # fold_key (drop 2 cs)
      else lower_char c # fold_key cs)"

text \<open>\<^verbatim>\<open>strconv.ParseUint(s, 10, 64)\<close> on the text of a JSON number.\<close>

definition parse_uint :: "string \<Rightarrow> u64 option" where
  "parse_uint s =
     (if s \<noteq> [] \<and> list_all is_digit s \<and> dec_val s < 2 ^ 64 then Some (word_of_nat (dec_val s)) else None)"

definition set_uint :: "(u64 \<Rightarrow> TraceRecord \<Rightarrow> TraceRecord) \<Rightarrow> json \<Rightarrow> TraceRecord \<Rightarrow> TraceRecord option" where
  "set_uint upd v r =
     (case v of
        JNull \<Rightarrow> Some r
      | JNum s \<Rightarrow> map_option (\<lambda>n. upd n r) (parse_uint s)
      | _ \<Rightarrow> None)"

text \<open>One member of the object; a member that matches no field is skipped.\<close>

definition set_member :: "string \<Rightarrow> json \<Rightarrow> TraceRecord \<Rightarrow> TraceRecord option" where
  "set_member key v r =
     (let k = fold_key key in
      if k = ''probe_id'' then set_uint (\<lambda>n. rec_ProbeID_update (\<lambda>_. n)) v r
      else if k = ''tid'' then set_uint (\<lambda>n. rec_TID_update (\<lambda>_. n)) v r
      else if k = ''addr'' then
        (case v of JNull \<Rightarrow> Some r | JStr s \<Rightarrow> Some (r\<lparr>rec_Addr := s\<rparr>) | _ \<Rightarrow> None)
      else if k = ''seq'' then set_uint (\<lambda>n. rec_Seq_update (\<lambda>_. n)) v r
      else if k = ''is_active'' then
        (case v of JNull \<Rightarrow> Some r | JBool b \<Rightarrow> Some (r\<lparr>rec_IsActive := b\<rparr>) | _ \<Rightarrow> None)
      else if k = ''ts'' then set_uint (\<lambda>n. rec_TS_update (\<lambda>_. n)) v r
      else Some r)"

fun set_members :: "(string \<times> json) list \<Rightarrow> TraceRecord \<Rightarrow> TraceRecord option" where
  "set_members [] r = Some r"
| "set_members ((k, v) # ms) r = (case set_member k v r of None \<Rightarrow> None | Some r \<Rightarrow> set_members ms r)"

text \<open>\<^verbatim>\<open>json.Unmarshal([]byte(line), &record)\<close> on a fresh record. \<open>None\<close> is any error: a syntax error, or a
  value that does not fit its field, which \<^verbatim>\<open>Unmarshal\<close> reports after decoding the rest.\<close>

definition Unmarshal :: "string \<Rightarrow> TraceRecord option" where
  "Unmarshal line =
     (case json_value line of
        None \<Rightarrow> None
      | Some JNull \<Rightarrow> Some zero_record
      | Some (JObj ms) \<Rightarrow> set_members ms zero_record
      | Some _ \<Rightarrow> None)"

section \<open>Streaming\<close>

text \<open>A file as \<^verbatim>\<open>StreamJSONL\<close> meets it: opening it may fail; reading yields bytes and may end in an
  error.\<close>

record jsonl_file =
  jf_open_err :: "os_err option"
  jf_bytes :: bytes
  jf_read_err :: "os_err option"

text \<open>The loop over the lines. \<open>fn\<close> is the callback with the state it changes.\<close>

fun stream_lines ::
  "nat \<Rightarrow> bytes list \<Rightarrow> (TraceRecord \<Rightarrow> 's \<Rightarrow> 's \<times> export_err option) \<Rightarrow> 's \<Rightarrow> 's \<times> export_err option" where
  "stream_lines lineNo [] fn s = (s, None)"
| "stream_lines lineNo (text # rest) fn s =
     (let lineNo = lineNo + 1; line = TrimSpace text in
      if line = [] then stream_lines lineNo rest fn s
      else (case Unmarshal line of
              None \<Rightarrow> (s, Some (ContextLine ''decode jsonl line'' lineNo JsonError))
            | Some record \<Rightarrow>
                (case fn record s of
                   (s, Some err) \<Rightarrow> (s, Some (ContextLine ''process jsonl line'' lineNo err))
                 | (s, None) \<Rightarrow> stream_lines lineNo rest fn s)))"

definition StreamJSONL ::
  "string \<Rightarrow> jsonl_file \<Rightarrow> (TraceRecord \<Rightarrow> 's \<Rightarrow> 's \<times> export_err option) \<Rightarrow> 's \<Rightarrow> 's \<times> export_err option" where
  "StreamJSONL jsonlPath file fn s =
     (case jf_open_err file of
        Some err \<Rightarrow> (s, Some (ContextPath ''open jsonl'' jsonlPath (OsError err)))
      | None \<Rightarrow>
        (case scan_lines (1024 * 1024) (jf_bytes file) of
           (lines, tooLong) \<Rightarrow>
             (case stream_lines 0 lines fn s of
                (s, Some err) \<Rightarrow> (s, Some err)
              | (s, None) \<Rightarrow>
                  if tooLong then (s, Some (ContextPath ''scan jsonl'' jsonlPath LineTooLong))
                  else (case jf_read_err file of
                          Some err \<Rightarrow> (s, Some (ContextPath ''scan jsonl'' jsonlPath (OsError err)))
                        | None \<Rightarrow> (s, None)))))"

section \<open>Helpers\<close>

text \<open>The argument is the outcome of \<^verbatim>\<open>os.MkdirAll\<close>, called only for a real parent
  directory.\<close>

definition ensureParentDir :: "(string \<Rightarrow> os_err option) \<Rightarrow> string \<Rightarrow> os_err option" where
  "ensureParentDir mkdirAll path =
     (let dir = Dir path in if dir = ''.'' \<or> dir = [] then None else mkdirAll dir)"

definition defaultString :: "string \<Rightarrow> string \<Rightarrow> string" where
  "defaultString val fallback = (if TrimSpace val = [] then fallback else val)"

definition boolToInt :: "bool \<Rightarrow> int" where
  "boolToInt b = (if b then 1 else 0)"

definition escapeSQLiteString :: "string \<Rightarrow> string" where
  "escapeSQLiteString val = ReplaceAll val [squote] [squote, squote]"

definition escapeMySQLString :: "string \<Rightarrow> string" where
  "escapeMySQLString val =
     (let val = ReplaceAll val [backslash] [backslash, backslash]
      in ReplaceAll val [squote] [squote, squote])"

definition escapePostgresString :: "string \<Rightarrow> string" where
  "escapePostgresString val = ReplaceAll val [squote] [squote, squote]"

definition quoteMySQLIdentifier :: "string \<Rightarrow> string" where
  "quoteMySQLIdentifier ident = [backquote] @ ReplaceAll ident [backquote] [backquote, backquote] @ [backquote]"

definition quotePostgresIdentifier :: "string \<Rightarrow> string" where
  "quotePostgresIdentifier ident = [dquote] @ ReplaceAll ident [dquote] [dquote, dquote] @ [dquote]"

section \<open>The round trip of a line\<close>

text \<open>The record of a logged event.\<close>

definition event_record :: "slot_event \<Rightarrow> TraceRecord" where
  "event_record e =
     \<lparr>rec_ProbeID = ev_probe e, rec_TID = ev_tid e, rec_Addr = appendHex [] (ev_addr e),
      rec_Seq = ev_seq e, rec_IsActive = ev_active e, rec_TS = ev_ts e\<rparr>"

lemma parse_uint_Format [simp]: "parse_uint (FormatUint v) = Some v"
  using FormatUint_digits [of v] unat_less_2p64 [of v]
  by (simp add: parse_uint_def FormatUint_def list_all_iff)

lemma scan_number_Format:
  "\<not> is_digit c \<Longrightarrow> c \<noteq> CHR ''.'' \<Longrightarrow> c \<noteq> CHR ''e'' \<Longrightarrow> c \<noteq> CHR ''E'' \<Longrightarrow>
   scan_number (FormatUint v @ c # r) = Some (FormatUint v, c # r)"
  by (simp add: FormatUint_def scan_number_dec)

lemma hex_plain: "\<forall>c \<in> set (appendHex [] v). plain_char c"
proof -
  have "\<forall>c \<in> set hexChars \<union> {CHR ''x''}. plain_char c"
    by (simp add: hexChars_def plain_char_def byte_in_def)
  then show ?thesis using appendHex_chars [of v] by blast
qed

text \<open>One member of a line, with a number, the address, or the flag, and what follows it.\<close>

lemma skip_ws_Cons [simp]: "\<not> json_space c \<Longrightarrow> skip_ws (c # r) = c # r"
  by (simp add: skip_ws_def)

lemma parse_value_uint:
  assumes "\<not> is_digit c" "c \<noteq> CHR ''.''" "c \<noteq> CHR ''e''" "c \<noteq> CHR ''E''"
  shows "parse_value (Suc f) d (FormatUint v @ c # r) = Some (JNum (FormatUint v), c # r)"
proof -
  obtain x xs where x: "FormatUint v = x # xs" by (cases "FormatUint v") auto
  with FormatUint_digits [of v] have "is_digit x" by simp
  then have "\<not> json_space x" "x \<noteq> CHR ''{''" "x \<noteq> CHR ''[''" "x \<noteq> dquote"
    by (auto simp: is_digit_def json_space_def)
  with scan_number_Format [OF assms, of v r] \<open>is_digit x\<close> show ?thesis by (simp add: x)
qed

lemma parse_value_hex:
  "parse_value (Suc f) d (dquote # appendHex [] v @ dquote # r) = Some (JStr (appendHex [] v), r)"
  by (simp add: str_body_plain [OF hex_plain] json_space_def)

lemma parse_value_bool:
  "parse_value (Suc f) d (FormatBool b @ r) = Some (JBool b, r)"
  by (cases b) (simp_all add: FormatBool_def json_space_def is_digit_def scan_literal_def)

lemma parse_members_Cons:
  assumes "\<forall>c \<in> set key. plain_char c" "parse_value f d s = Some (v, e # r)"
    "e = CHR '','' \<or> e = CHR ''}''"
  shows "parse_members (Suc f) d (dquote # key @ dquote # CHR '':'' # s) =
     (if e = CHR ''}'' then Some ([(key, v)], r)
      else map_option (\<lambda>(ms, r). ((key, v) # ms, r)) (parse_members f d r))"
  using assms by (auto simp: str_body_plain json_space_def)

declare parse_members.simps [simp del] fold_key.simps [simp del]

lemma plain_keys:
  "\<forall>c \<in> set ''probe_id''. plain_char c" "\<forall>c \<in> set ''tid''. plain_char c" "\<forall>c \<in> set ''addr''. plain_char c"
  "\<forall>c \<in> set ''seq''. plain_char c" "\<forall>c \<in> set ''is_active''. plain_char c" "\<forall>c \<in> set ''ts''. plain_char c"
  by (simp_all add: plain_char_def byte_in_def)

lemma member_uint:
  assumes "\<forall>c \<in> set key. plain_char c" "e = CHR '','' \<or> e = CHR ''}''"
  shows "parse_members (Suc (Suc f)) d (dquote # key @ dquote # CHR '':'' # FormatUint v @ e # r) =
     (if e = CHR ''}'' then Some ([(key, JNum (FormatUint v))], r)
      else map_option (\<lambda>(ms, r). ((key, JNum (FormatUint v)) # ms, r)) (parse_members (Suc f) d r))"
  using assms by (intro parse_members_Cons parse_value_uint) (auto simp: is_digit_def)

lemma member_hex:
  assumes "\<forall>c \<in> set key. plain_char c"
  shows "parse_members (Suc (Suc f)) d (dquote # key @ dquote # CHR '':'' # dquote # appendHex [] v @ dquote # CHR '','' # r) =
     map_option (\<lambda>(ms, r). ((key, JStr (appendHex [] v)) # ms, r)) (parse_members (Suc f) d r)"
  using parse_members_Cons [OF assms parse_value_hex [of f d v "CHR '','' # r"]] by simp

lemma member_bool:
  assumes "\<forall>c \<in> set key. plain_char c"
  shows "parse_members (Suc (Suc f)) d (dquote # key @ dquote # CHR '':'' # FormatBool b @ CHR '','' # r) =
     map_option (\<lambda>(ms, r). ((key, JBool b) # ms, r)) (parse_members (Suc f) d r)"
  using parse_members_Cons [OF assms parse_value_bool [of f d b "CHR '','' # r"]] by simp

definition slot_members :: "u64 \<Rightarrow> u64 \<Rightarrow> u64 \<Rightarrow> u64 \<Rightarrow> bool \<Rightarrow> u64 \<Rightarrow> (string \<times> json) list" where
  "slot_members probe safeSeq tid addr isActive ts =
     [(''probe_id'', JNum (FormatUint probe)), (''tid'', JNum (FormatUint tid)), (''addr'', JStr (appendHex [] addr)),
      (''seq'', JNum (FormatUint safeSeq)), (''is_active'', JBool isActive), (''ts'', JNum (FormatUint ts))]"

lemma parse_members_slot:
  "parse_members (Suc (Suc (Suc (Suc (Suc (Suc (Suc f))))))) d (tl (slot_json probe safeSeq tid addr isActive ts)) =
     Some (slot_members probe safeSeq tid addr isActive ts, [])"
proof -
  note m = member_uint [OF plain_keys(1), where e = "CHR '',''"] member_uint [OF plain_keys(2), where e = "CHR '',''"]
    member_hex [OF plain_keys(3)] member_uint [OF plain_keys(4), where e = "CHR '',''"]
    member_bool [OF plain_keys(5)] member_uint [OF plain_keys(6), where e = "CHR ''}''"]
  show ?thesis
    using m [simplified] by (simp add: slot_json_def slot_members_def)
qed

lemma json_value_slot:
  "json_value (slot_json probe safeSeq tid addr isActive ts) =
     Some (JObj (slot_members probe safeSeq tid addr isActive ts))"
proof -
  let ?s = "slot_json probe safeSeq tid addr isActive ts"
  have s: "?s = CHR ''{'' # tl ?s" by (simp add: slot_json_def)
  have "4 \<le> length ?s" by (simp add: slot_json_def)
  then obtain f where f: "2 * length ?s + 2 = Suc (Suc (Suc (Suc (Suc (Suc (Suc (Suc f)))))))"
    by (intro that [of "2 * length ?s - 6"]) simp
  have "take 1 (skip_ws (tl ?s)) \<noteq> ''}''" by (simp add: slot_json_def json_space_def)
  then have "parse_value (2 * length ?s + 2) 0 ?s = Some (JObj (slot_members probe safeSeq tid addr isActive ts), [])"
    unfolding f by (subst s) (simp add: json_space_def max_depth_def parse_members_slot)
  then show ?thesis by (simp add: json_value_def skip_ws_def)
qed

lemma fold_keys:
  "fold_key ''probe_id'' = ''probe_id''" "fold_key ''tid'' = ''tid''" "fold_key ''addr'' = ''addr''"
  "fold_key ''seq'' = ''seq''" "fold_key ''is_active'' = ''is_active''" "fold_key ''ts'' = ''ts''"
  by code_simp+

lemma Unmarshal_slot:
  "Unmarshal (slot_json probe safeSeq tid addr isActive ts) =
     Some \<lparr>rec_ProbeID = probe, rec_TID = tid, rec_Addr = appendHex [] addr, rec_Seq = safeSeq,
           rec_IsActive = isActive, rec_TS = ts\<rparr>"
  by (simp add: Unmarshal_def json_value_slot slot_members_def set_member_def set_uint_def fold_keys zero_record_def Let_def)

text \<open>C16: The line built byte by byte in \<^verbatim>\<open>marshalSafeSlotJSONL\<close> is the JSON object one means: appended to the buffer it is one
  line of at most 159 bytes which a JSON parser reads as the six members in order, numbers with the exact 64-bit
  values, and the address as \<^verbatim>\<open>0x\<close> and 16 digits that give the address back.\<close>

theorem marshal_is_json:
  "\<exists>line. marshalSafeSlotJSONL s buf safeSeq tid addr isActive ts = buf @ line @ [newline] \<and>
     newline \<notin> set line \<and> length line \<le> 159 \<and>
     json_value line = Some (JObj
       [(''probe_id'', JNum (FormatUint (ProbeID (Header s)))), (''tid'', JNum (FormatUint tid)),
        (''addr'', JStr (appendHex [] addr)), (''seq'', JNum (FormatUint safeSeq)), (''is_active'', JBool isActive),
        (''ts'', JNum (FormatUint ts))]) \<and>
     length (appendHex [] addr) = 18 \<and> parse_addr (appendHex [] addr) = Some addr \<and>
     map parse_uint [FormatUint (ProbeID (Header s)), FormatUint tid, FormatUint safeSeq, FormatUint ts] =
       map Some [ProbeID (Header s), tid, safeSeq, ts]"
  by (rule exI [of _ "slot_json (ProbeID (Header s)) safeSeq tid addr isActive ts"])
     (simp add: marshal_eq slot_json_no_newline length_slot_json json_value_slot slot_members_def parse_addr_appendHex)

section \<open>Streaming a log\<close>

text \<open>The callback run over a list of records, stopping at its first error.\<close>

fun feed :: "nat \<Rightarrow> TraceRecord list \<Rightarrow> (TraceRecord \<Rightarrow> 's \<Rightarrow> 's \<times> export_err option) \<Rightarrow> 's \<Rightarrow> 's \<times> export_err option" where
  "feed n [] fn s = (s, None)"
| "feed n (r # rs) fn s =
     (case fn r s of
        (s, Some err) \<Rightarrow> (s, Some (ContextLine ''process jsonl line'' (n + 1) err))
      | (s, None) \<Rightarrow> feed (n + 1) rs fn s)"

definition event_text :: "slot_event \<Rightarrow> bytes" where
  "event_text e = slot_json (ev_probe e) (ev_seq e) (ev_tid e) (ev_addr e) (ev_active e) (ev_ts e)"

lemma event_line_text: "event_line e = event_text e @ [newline]"
  by (simp add: event_line_def event_text_def)

lemma event_text_facts:
  "newline \<notin> set (event_text e)" "length (event_text e) \<le> 159" "drop_cr (event_text e) = event_text e"
  "TrimSpace (event_text e) = event_text e" "event_text e \<noteq> []"
  "Unmarshal (event_text e) = Some (event_record e)"
proof -
  show "newline \<notin> set (event_text e)" by (simp add: event_text_def slot_json_no_newline)
  show "length (event_text e) \<le> 159" by (simp add: event_text_def length_slot_json)
  obtain m where m: "event_text e = CHR ''{'' # m @ ''}''"
    by (simp add: event_text_def slot_json_def)
  then show "drop_cr (event_text e) = event_text e" "event_text e \<noteq> []" by (simp_all add: drop_cr_def)
  show "TrimSpace (event_text e) = event_text e"
    unfolding m by (rule TrimSpace_frame) (simp_all add: space_heads_def space_lasts_def go_spaces_def)
  show "Unmarshal (event_text e) = Some (event_record e)"
    by (simp add: event_text_def Unmarshal_slot event_record_def)
qed

lemma stream_events:
  "stream_lines n (map event_text evs @ ls) fn s =
     (case feed n (map event_record evs) fn s of
        (s, Some err) \<Rightarrow> (s, Some err)
      | (s, None) \<Rightarrow> stream_lines (n + length evs) ls fn s)"
  by (induction evs arbitrary: n s) (auto simp: event_text_facts Let_def split: prod.splits option.splits)

lemma raw_lines_events: "raw_lines (concat (map event_line evs) @ s) = map event_text evs @ raw_lines s"
  by (induction evs) (simp_all add: event_line_text raw_lines_line event_text_facts(1))

lemma scan_lines_events:
  assumes "200 \<le> n"
  shows "scan_lines n (concat (map event_line evs) @ s) =
     (map event_text evs @ fst (scan_lines n s), snd (scan_lines n s))"
proof -
  have short: "\<forall>l \<in> set (map event_text evs). length l < n"
    using event_text_facts(2) assms by (fastforce intro: le_less_trans)
  then have "takeWhile (\<lambda>l. length l < n) (map event_text evs @ raw_lines s) =
      map event_text evs @ takeWhile (\<lambda>l. length l < n) (raw_lines s)"
    by (intro takeWhile_append2) auto
  then show ?thesis
    by (simp add: scan_lines_def raw_lines_events Let_def comp_def event_text_facts(3))
qed

lemma StreamJSONL_events:
  "StreamJSONL path \<lparr>jf_open_err = None, jf_bytes = concat (map event_line evs), jf_read_err = None\<rparr> fn s =
     feed 0 (map event_record evs) fn s"
  using scan_lines_events [of "1024 * 1024" evs "[]"] stream_events [of 0 evs "[]" fn s]
  by (simp add: StreamJSONL_def scan_lines_def split: prod.splits option.splits)

definition collect :: "TraceRecord \<Rightarrow> TraceRecord list \<Rightarrow> TraceRecord list \<times> export_err option" where
  "collect r rs = (rs @ [r], None)"

lemma feed_collect: "feed n rs collect acc = (acc @ rs, None)"
  by (induction rs arbitrary: n acc) (simp_all add: collect_def)

section \<open>Properties of the reader\<close>

text \<open>C15: A log file of the tracer is read back exactly: \<^verbatim>\<open>StreamJSONL\<close> over the lines of any list of harvested
  events hands its callback the records of these events, in order, without error, and the address text
  of a record determines the 64-bit address. Nothing the tracer logs is changed or rejected by
  the exporters' reader, whatever the 64-bit values are.\<close>

theorem log_read_back:
  "StreamJSONL path \<lparr>jf_open_err = None, jf_bytes = concat (map event_line evs), jf_read_err = None\<rparr> collect [] =
     (map event_record evs, None) \<and>
   (\<forall>e. rec_ProbeID (event_record e) = ev_probe e \<and> rec_TID (event_record e) = ev_tid e \<and>
        parse_addr (rec_Addr (event_record e)) = Some (ev_addr e) \<and> rec_Seq (event_record e) = ev_seq e \<and>
        rec_IsActive (event_record e) = ev_active e \<and> rec_TS (event_record e) = ev_ts e)"
  by (simp add: StreamJSONL_events feed_collect event_record_def parse_addr_appendHex)

text \<open>C37: A line that is not a trace record stops the reading with an error that names its line number;
  the callback has then seen exactly the lines before it, and nothing after it.\<close>

theorem bad_line_stops:
  assumes "newline \<notin> set bad" "length bad < 1024 * 1024" "TrimSpace (drop_cr bad) \<noteq> []"
    "Unmarshal (TrimSpace (drop_cr bad)) = None"
  shows "StreamJSONL path \<lparr>jf_open_err = None, jf_bytes = concat (map event_line evs) @ bad @ newline # rest,
             jf_read_err = err\<rparr> collect [] =
         (map event_record evs, Some (ContextLine ''decode jsonl line'' (length evs + 1) JsonError))"
proof -
  have "fst (scan_lines (1024 * 1024) (bad @ newline # rest)) = drop_cr bad # fst (scan_lines (1024 * 1024) rest)"
    using assms(1,2) by (simp add: scan_lines_def raw_lines_line Let_def)
  then show ?thesis
    using scan_lines_events [of "1024 * 1024" evs "bad @ newline # rest"] assms(3,4)
    by (simp add: StreamJSONL_def stream_events feed_collect split: prod.splits)
qed

theorem bad_line_stops_witness:
  "StreamJSONL ''t.jsonl'' \<lparr>jf_open_err = None, jf_bytes = concat (map event_line []) @ ''{'' @ newline # ''{}'',
      jf_read_err = None\<rparr> collect [] = ([], Some (ContextLine ''decode jsonl line'' 1 JsonError))"
proof -
  have "Unmarshal (TrimSpace (drop_cr ''{'')) = None" "TrimSpace (drop_cr ''{'') \<noteq> []" by code_simp+
  with bad_line_stops [of "''{''" "''t.jsonl''" "[]" "''{}''" None] show ?thesis by simp
qed

end
