(* ===== verification/Go_Fmt.thy ===== *)
theory Go_Fmt
  imports Go_Strings
begin

text \<open>
  Package \<^verbatim>\<open>fmt\<close> of Go as the exporters use it: \<^verbatim>\<open>Fprintf\<close> with the verbs \<^verbatim>\<open>%d\<close>, \<^verbatim>\<open>%s\<close> and \<^verbatim>\<open>%t\<close>. The format string
  is scanned and the arguments are consumed from left to right, as \<^verbatim>\<open>doPrintf\<close> does, because two exporters build
  their format string from a table name; what a stray \<^verbatim>\<open>%\<close> in it does is then part of the model.
\<close>

section \<open>Arguments and verbs\<close>

datatype fmt_arg = UintArg u64 | IntArg int | StrArg string | BoolArg bool

text \<open>The name of an argument's type and its value as \<^verbatim>\<open>%v\<close> prints it, for the error texts.\<close>

fun arg_type :: "fmt_arg \<Rightarrow> string" where
  "arg_type (UintArg v) = ''uint64''"
| "arg_type (IntArg v) = ''int''"
| "arg_type (StrArg v) = ''string''"
| "arg_type (BoolArg v) = ''bool''"

fun arg_text :: "fmt_arg \<Rightarrow> string" where
  "arg_text (UintArg v) = FormatUint v"
| "arg_text (IntArg v) = FormatInt v"
| "arg_text (StrArg v) = v"
| "arg_text (BoolArg v) = FormatBool v"

text \<open>The verbs with the types they accept.\<close>

fun verb_accepts :: "char \<Rightarrow> fmt_arg \<Rightarrow> bool" where
  "verb_accepts v (UintArg _) = (v = CHR ''d'')"
| "verb_accepts v (IntArg _) = (v = CHR ''d'')"
| "verb_accepts v (StrArg _) = (v = CHR ''s'')"
| "verb_accepts v (BoolArg _) = (v = CHR ''t'')"

text \<open>A verb that does not fit its argument prints \<^verbatim>\<open>%!verb(type=value)\<close>.\<close>

definition print_arg :: "char \<Rightarrow> fmt_arg \<Rightarrow> string" where
  "print_arg v a =
     (if verb_accepts v a then arg_text a
      else ''%!'' @ [v] @ ''('' @ arg_type a @ ''='' @ arg_text a @ '')'')"

text \<open>Arguments no verb has consumed are listed at the end.\<close>

fun extra_list :: "fmt_arg list \<Rightarrow> string" where
  "extra_list [] = []"
| "extra_list [a] = arg_type a @ ''='' @ arg_text a"
| "extra_list (a # b # as) = arg_type a @ ''='' @ arg_text a @ '', '' @ extra_list (b # as)"

definition extra_args :: "fmt_arg list \<Rightarrow> string" where
  "extra_args as = (if as = [] then [] else ''%!(EXTRA '' @ extra_list as @ '')'')"

section \<open>Formatting\<close>

text \<open>\<open>None\<close> when the format has a directive outside this fragment: flags, a width, another verb.\<close>

fun doPrintf :: "string \<Rightarrow> fmt_arg list \<Rightarrow> string option" where
  "doPrintf [] as = Some (extra_args as)"
| "doPrintf [c] as = Some (if c = CHR ''%'' then ''%!(NOVERB)'' @ extra_args as else c # extra_args as)"
| "doPrintf (c # v # s) as =
     (if c \<noteq> CHR ''%'' then map_option ((#) c) (doPrintf (v # s) as)
      else if v = CHR ''%'' then map_option ((#) (CHR ''%'')) (doPrintf s as)
      else if v = CHR ''d'' \<or> v = CHR ''s'' \<or> v = CHR ''t'' then
        (case as of
           [] \<Rightarrow> map_option (\<lambda>r. ''%!'' @ [v] @ ''(MISSING)'' @ r) (doPrintf s [])
         | a # as' \<Rightarrow> map_option (\<lambda>r. print_arg v a @ r) (doPrintf s as'))
      else None)"

text \<open>\<open>rest\<close> stands for the part of the package outside the fragment.\<close>

definition Sprintf :: "(string \<Rightarrow> fmt_arg list \<Rightarrow> string) \<Rightarrow> string \<Rightarrow> fmt_arg list \<Rightarrow> string" where
  "Sprintf rest format as = (case doPrintf format as of Some r \<Rightarrow> r | None \<Rightarrow> rest format as)"

section \<open>Formats\<close>

lemma doPrintf_char: "c \<noteq> CHR ''%'' \<Longrightarrow> doPrintf (c # s) as = map_option ((#) c) (doPrintf s as)"
  by (cases s) auto

text \<open>Text without \<^verbatim>\<open>%\<close> is copied.\<close>

lemma doPrintf_text: "CHR ''%'' \<notin> set t \<Longrightarrow> doPrintf (t @ s) as = map_option ((@) t) (doPrintf s as)"
proof (induction t)
  case (Cons c t)
  then show ?case by (cases "doPrintf s as") (auto simp: doPrintf_char)
qed (cases "doPrintf s as"; simp)

lemma doPrintf_percent: "doPrintf (CHR ''%'' # CHR ''%'' # s) as = map_option ((#) (CHR ''%'')) (doPrintf s as)"
  by simp

lemma Sprintf_text:
  assumes "CHR ''%'' \<notin> set t" "doPrintf s as = Some r"
  shows "Sprintf rest (t @ s) as = t @ r"
  using assms by (simp add: Sprintf_def doPrintf_text)

end
