(* ===== verification/Sql_Text.thy ===== *)
theory Sql_Text
  imports Export_Common Go_Fmt "HOL-Library.Monad_Syntax"
begin

text \<open>
  Quoting for SQL: what a database reads when it meets the text the exporters build. The locale
  \<open>quoted_text\<close> states the contract of a quoting function with the reader of its dialect; it is
  interpreted for the string literals and the identifiers of the three databases. Inside it, whole
  rows are shown to read back as they were written.
\<close>

section \<open>Readers\<close>

text \<open>The inside of a quoted text in which the quote is doubled: standard SQL literals (SQLite, and
  PostgreSQL with \<^verbatim>\<open>standard_conforming_strings\<close> on) and quoted identifiers. Result: the text and the
  input after the closing quote.\<close>

fun read_doubled :: "char \<Rightarrow> string \<Rightarrow> (string \<times> string) option" where
  "read_doubled q [] = None"
| "read_doubled q (c # cs) =
     (if c = q then
        (if take 1 cs = [q] then map_option (\<lambda>(v, r). (q # v, r)) (read_doubled q (drop 1 cs))
         else Some ([], cs))
      else map_option (\<lambda>(v, r). (c # v, r)) (read_doubled q cs))"

text \<open>A MySQL string literal in the default SQL mode: a backslash escapes the next character.\<close>

definition mysql_unescape :: "char \<Rightarrow> char" where
  "mysql_unescape c =
     (case map_of [(CHR ''0'', CHR 0x00), (CHR ''b'', CHR 0x08), (CHR ''n'', CHR 0x0A), (CHR ''r'', CHR 0x0D),
                   (CHR ''t'', CHR 0x09), (CHR ''Z'', CHR 0x1A)] c of
        Some x \<Rightarrow> x | None \<Rightarrow> c)"

fun read_mysql :: "string \<Rightarrow> (string \<times> string) option" where
  "read_mysql [] = None"
| "read_mysql (c # cs) =
     (if c = backslash then
        (case cs of [] \<Rightarrow> None
         | e # _ \<Rightarrow> map_option (\<lambda>(v, r). (mysql_unescape e # v, r)) (read_mysql (drop 1 cs)))
      else if c = squote then
        (if take 1 cs = [squote] then map_option (\<lambda>(v, r). (squote # v, r)) (read_mysql (drop 1 cs))
         else Some ([], cs))
      else map_option (\<lambda>(v, r). (c # v, r)) (read_mysql cs))"

section \<open>The contract of quoting\<close>

locale quoted_text =
  fixes quote_char :: char
    and escape :: "string \<Rightarrow> string"
    and read_quoted :: "string \<Rightarrow> (string \<times> string) option"
  assumes read_escape:
    "take 1 rest \<noteq> [quote_char] \<Longrightarrow> read_quoted (escape v @ quote_char # rest) = Some (v, rest)"
begin

lemma escape_inject: "escape v = escape w \<Longrightarrow> v = w"
proof -
  assume e: "escape v = escape w"
  have r: "read_quoted (escape u @ [quote_char]) = Some (u, [])" for u using read_escape [of "[]" u] by simp
  show "v = w" using r [of v] r [of w] unfolding e by simp
qed

text \<open>Whatever the text, the reader stops at the quote that closes it: no text ends its own
  literal.\<close>

lemma escape_closed: "read_quoted (escape v @ quote_char # CHR '','' # rest) = Some (v, CHR '','' # rest)"
  if "quote_char \<noteq> CHR '',''"
  using that by (intro read_escape) simp

end

lemma ReplaceAll_Cons_char:
  "ReplaceAll (c # cs) [q] new = (if c = q then new else [c]) @ ReplaceAll cs [q] new"
  by (simp add: ReplaceAll_char)

lemma read_doubled_escape:
  "take 1 rest \<noteq> [q] \<Longrightarrow> read_doubled q (ReplaceAll v [q] [q, q] @ q # rest) = Some (v, rest)"
  by (induction v) (auto simp: ReplaceAll_Cons_char simp del: ReplaceAll.simps(2))

lemma escapeMySQL_Cons:
  "escapeMySQLString (c # cs) =
     (if c = backslash then [backslash, backslash] else if c = squote then [squote, squote] else [c]) @
     escapeMySQLString cs"
  by (simp add: escapeMySQLString_def ReplaceAll_Cons_char Let_def del: ReplaceAll.simps(2))

lemma read_mysql_escape:
  "take 1 rest \<noteq> [squote] \<Longrightarrow> read_mysql (escapeMySQLString v @ squote # rest) = Some (v, rest)"
proof (induction v)
  case Nil
  then show ?case by (simp add: escapeMySQLString_def)
next
  case (Cons c cs)
  moreover have "mysql_unescape backslash = backslash" by (simp add: mysql_unescape_def)
  ultimately show ?case by (auto simp: escapeMySQL_Cons)
qed

interpretation sqlite_lit: quoted_text squote escapeSQLiteString "read_doubled squote"
  by unfold_locales (simp add: escapeSQLiteString_def read_doubled_escape)

interpretation pg_lit: quoted_text squote escapePostgresString "read_doubled squote"
  by unfold_locales (simp add: escapePostgresString_def read_doubled_escape)

interpretation mysql_lit: quoted_text squote escapeMySQLString read_mysql
  by unfold_locales (rule read_mysql_escape)

text \<open>Identifiers: the body between the quotes the function puts around it.\<close>

interpretation mysql_id: quoted_text backquote "\<lambda>v. butlast (tl (quoteMySQLIdentifier v))" "read_doubled backquote"
  by unfold_locales (simp add: quoteMySQLIdentifier_def butlast_append read_doubled_escape)

interpretation pg_id: quoted_text dquote "\<lambda>v. butlast (tl (quotePostgresIdentifier v))" "read_doubled dquote"
  by unfold_locales (simp add: quotePostgresIdentifier_def butlast_append read_doubled_escape)

section \<open>Rows\<close>

text \<open>Readers of the pieces of a row.\<close>

definition expect :: "string \<Rightarrow> string \<Rightarrow> string option" where
  "expect w s = (if prefix w s then Some (drop (length w) s) else None)"

definition read_num :: "string \<Rightarrow> (u64 \<times> string) option" where
  "read_num s = map_option (\<lambda>v. (v, dropWhile is_digit s)) (parse_uint (takeWhile is_digit s))"

definition read_flag :: "(string \<times> bool) list \<Rightarrow> string \<Rightarrow> (bool \<times> string) option" where
  "read_flag words s =
     map_option (\<lambda>(w, b). (b, drop (length w) s)) (find (\<lambda>(w, b). prefix w s) words)"

lemma expect_append [simp]: "expect w (w @ s) = Some s"
  by (simp add: expect_def)

lemma read_num_Format: "\<not> is_digit c \<Longrightarrow> read_num (FormatUint v @ c # s) = Some (v, c # s)"
  using FormatUint_digits [of v]
  by (simp add: read_num_def takeWhile_append_stop dropWhile_append_stop)

text \<open>A row: the start of the statement, the six values (the probe identifier between \<open>pq\<close>, the address as a
  literal), the end of the statement. \<open>exact\<close> says which values the client and the columns take over as they are written; a
  row with another value does not read back.\<close>

definition read_row ::
  "string \<Rightarrow> string \<Rightarrow> (string \<Rightarrow> (string \<times> string) option) \<Rightarrow> (string \<times> bool) list \<Rightarrow> (TraceRecord \<Rightarrow> bool) \<Rightarrow>
   string \<Rightarrow> (TraceRecord \<times> string) option" where
  "read_row head pq lit words exact s = do {
     s \<leftarrow> expect (head @ pq) s;
     (probe, s) \<leftarrow> read_num s;
     s \<leftarrow> expect (pq @ '', '') s;
     (tid, s) \<leftarrow> read_num s;
     s \<leftarrow> expect ('', '' @ [squote]) s;
     (addr, s) \<leftarrow> lit s;
     s \<leftarrow> expect '', '' s;
     (seq, s) \<leftarrow> read_num s;
     s \<leftarrow> expect '', '' s;
     (active, s) \<leftarrow> read_flag words s;
     s \<leftarrow> expect '', '' s;
     (ts, s) \<leftarrow> read_num s;
     s \<leftarrow> expect ('');'' @ [newline]) s;
     let r = \<lparr>rec_ProbeID = probe, rec_TID = tid, rec_Addr = addr, rec_Seq = seq, rec_IsActive = active, rec_TS = ts\<rparr>;
     if exact r then Some (r, s) else None
   }"

text \<open>As many rows as there are at the front, at most \<open>n\<close>.\<close>

fun read_rows :: "nat \<Rightarrow> (string \<Rightarrow> (TraceRecord \<times> string) option) \<Rightarrow> string \<Rightarrow> TraceRecord list \<times> string" where
  "read_rows 0 rd s = ([], s)"
| "read_rows (Suc n) rd s =
     (case rd s of
        None \<Rightarrow> ([], s)
      | Some (r, s') \<Rightarrow> (case read_rows n rd s' of (rs, t) \<Rightarrow> (r # rs, t)))"

text \<open>A dialect whose insert statements have this form, with \<open>flag\<close> the text of a boolean.\<close>

locale insert_dialect = quoted_text squote escape read_quoted
  for escape :: "string \<Rightarrow> string" and read_quoted +
  fixes head :: string
    and pq :: string
    and flag :: "bool \<Rightarrow> string"
    and words :: "(string \<times> bool) list"
    and exact :: "TraceRecord \<Rightarrow> bool"
    and insert_stmt :: "TraceRecord \<Rightarrow> string"
  assumes insert_text: "insert_stmt r =
      head @ pq @ FormatUint (rec_ProbeID r) @ pq @ '', '' @ FormatUint (rec_TID r) @ '', '' @ [squote] @
      escape (rec_Addr r) @ [squote] @ '', '' @ FormatUint (rec_Seq r) @ '', '' @ flag (rec_IsActive r) @
      '', '' @ FormatUint (rec_TS r) @ '');'' @ [newline]"
    and probe_quote: "pq = [] \<or> pq = [squote]"
    and head_start: "prefix ''INSERT'' head"
    and read_flag_text: "read_flag words (flag b @ '','' @ s) = Some (b, '','' @ s)"
begin

abbreviation read_insert :: "string \<Rightarrow> (TraceRecord \<times> string) option" where
  "read_insert \<equiv> read_row head pq read_quoted words exact"

lemma read_num_probe: "read_num (FormatUint v @ pq @ '', '' @ s) = Some (v, pq @ '', '' @ s)"
  using probe_quote read_num_Format [of squote v] read_num_Format [of "CHR '',''" v]
  by (auto simp: is_digit_def)

lemma read_num_comma: "read_num (FormatUint v @ '', '' @ s) = Some (v, '', '' @ s)"
  "read_num (FormatUint v @ '');'' @ s) = Some (v, '');'' @ s)"
  using read_num_Format [of "CHR '',''" v] read_num_Format [of "CHR '')''" v]
  by (auto simp: is_digit_def)

text \<open>One statement reads back as its record if the database holds that exactly.\<close>

lemma read_insert_stmt: "read_insert (insert_stmt r @ rest) = (if exact r then Some (r, rest) else None)"
proof -
  have lit: "read_quoted (escape v @ squote # '', '' @ s) = Some (v, '', '' @ s)" for v s
    by (rule read_escape) simp
  have flag: "read_flag words (flag b @ '', '' @ s) = Some (b, '', '' @ s)" for b s
    using read_flag_text [of b "'' '' @ s"] by simp
  have "insert_stmt r @ rest = (head @ pq) @ FormatUint (rec_ProbeID r) @ pq @ '', '' @ FormatUint (rec_TID r) @
      ('', '' @ [squote]) @ escape (rec_Addr r) @ squote # '', '' @ FormatUint (rec_Seq r) @ '', '' @
      flag (rec_IsActive r) @ '', '' @ FormatUint (rec_TS r) @ '');'' @ newline # rest"
    by (simp add: insert_text)
  moreover have "expect (pq @ '', '') (pq @ '', '' @ s) = Some s" for s
    using expect_append [of "pq @ '', ''" s] by simp
  moreover have "expect ('');'' @ [newline]) ('');'' @ newline # s) = Some s" for s
    using expect_append [of "'');'' @ [newline]" s] by simp
  moreover have "read_num (FormatUint v @ ('', '' @ [squote]) @ s) = Some (v, ('', '' @ [squote]) @ s)" for v s
    using read_num_comma(1) [of v "squote # s"] by simp
  moreover have "\<lparr>rec_ProbeID = rec_ProbeID r, rec_TID = rec_TID r, rec_Addr = rec_Addr r, rec_Seq = rec_Seq r,
      rec_IsActive = rec_IsActive r, rec_TS = rec_TS r\<rparr> = r" by simp
  ultimately show ?thesis unfolding read_row_def
    by (simp only: expect_append read_num_probe read_num_comma lit flag bind.bind_lunit prod.case Let_def)
qed

lemma read_insert_other: "take 6 s \<noteq> ''INSERT'' \<Longrightarrow> read_insert s = None"
proof -
  assume other: "take 6 s \<noteq> ''INSERT''"
  have "\<not> prefix (head @ pq) s"
  proof
    assume "prefix (head @ pq) s"
    then have "prefix ''INSERT'' s" using head_start by (meson prefixI prefix_order.trans)
    with other show False by (auto simp: prefix_def)
  qed
  then show ?thesis by (simp add: read_row_def expect_def)
qed

lemma read_rows_inserts:
  assumes "length rs \<le> n" "take 6 rest \<noteq> ''INSERT''" "list_all exact rs"
  shows "read_rows n read_insert (concat (map insert_stmt rs) @ rest) = (rs, rest)"
  using assms(1,3)
proof (induction rs arbitrary: n)
  case Nil
  then show ?case using read_insert_other [OF assms(2)] by (cases n) simp_all
next
  case (Cons r rs)
  then obtain m where "n = Suc m" by (cases n) auto
  with Cons show ?case using read_insert_stmt by simp
qed

text \<open>In general the rows before the first record that is not held exactly read back.\<close>

lemma read_rows_exact:
  assumes "length rs \<le> n" "take 6 rest \<noteq> ''INSERT''"
  shows "fst (read_rows n read_insert (concat (map insert_stmt rs) @ rest)) = takeWhile exact rs"
  using assms(1)
proof (induction rs arbitrary: n)
  case Nil
  then show ?case using read_insert_other [OF assms(2)] by (cases n) simp_all
next
  case (Cons r rs)
  then obtain m where "n = Suc m" by (cases n) auto
  moreover have "fst (read_rows m read_insert (concat (map insert_stmt rs) @ rest)) = takeWhile exact rs"
    using Cons \<open>n = Suc m\<close> by simp
  ultimately show ?case using read_insert_stmt by (auto split: prod.splits)
qed

lemma read_rows_iff:
  assumes "length rs \<le> n" "take 6 rest \<noteq> ''INSERT''"
  shows "read_rows n read_insert (concat (map insert_stmt rs) @ rest) = (rs, rest) \<longleftrightarrow> list_all exact rs"
  using read_rows_exact [OF assms] read_rows_inserts [OF assms] by (metis fst_conv list_all_iff takeWhile_eq_all_conv)

end

section \<open>Format strings with a table name\<close>

text \<open>The end of the two format strings that are built from a quoted table name.\<close>

definition insert_columns :: string where
  "insert_columns = '' (probe_id, tid, addr, seq, is_active, ts) VALUES (''"

definition insert_verbs :: string where
  "insert_verbs = insert_columns @ ''%d, %d, '' @ [squote] @ ''%s'' @ [squote] @ '', %d, %t, %d);'' @ [newline]"

lemma doPrintf_insert_verbs:
  "doPrintf insert_verbs [UintArg a, UintArg b, StrArg c, UintArg d, BoolArg e, UintArg f] =
     Some (insert_columns @ FormatUint a @ '', '' @ FormatUint b @ '', '' @ [squote] @ c @ [squote] @ '', '' @
       FormatUint d @ '', '' @ FormatBool e @ '', '' @ FormatUint f @ '');'' @ [newline])"
proof -
  have "CHR ''%'' \<notin> set insert_columns" by (simp add: insert_columns_def)
  then show ?thesis by (simp add: insert_verbs_def doPrintf_text print_arg_def extra_args_def)
qed

text \<open>With the arguments one place off: a verb inside the table name has taken the first.\<close>

lemma doPrintf_insert_verbs_shifted:
  "doPrintf insert_verbs [UintArg b, StrArg c, UintArg d, BoolArg e, UintArg f] =
     Some (insert_columns @ FormatUint b @ '', %!d(string='' @ c @ ''), '' @ [squote] @ ''%!s(uint64='' @ FormatUint d @
       '')'' @ [squote] @ '', %!d(bool='' @ FormatBool e @ ''), %!t(uint64='' @ FormatUint f @ ''), %!d(MISSING));'' @ [newline])"
proof -
  have "CHR ''%'' \<notin> set insert_columns" by (simp add: insert_columns_def)
  then show ?thesis by (simp add: insert_verbs_def doPrintf_text print_arg_def extra_args_def)
qed

lemma quote_no_percent:
  "CHR ''%'' \<notin> set t \<Longrightarrow> CHR ''%'' \<notin> set (quoteMySQLIdentifier t)"
  "CHR ''%'' \<notin> set t \<Longrightarrow> CHR ''%'' \<notin> set (quotePostgresIdentifier t)"
  by (auto simp: quoteMySQLIdentifier_def quotePostgresIdentifier_def ReplaceAll_char split: if_splits)

end
