(* ===== verification/Export_Pipe.thy ===== *)
theory Export_Pipe
  imports Sql_Text
begin

text \<open>
  What the three database exporters share: the world they run in, a child process fed through a
  buffered pipe, the sequence of writes, the \<^verbatim>\<open>abort\<close> path and the wait for the child. The locale
  \<open>script_exporter\<close> states what an exporter is made of; its lemmas say what reaches the child on
  success, on failure, and when success is certain.
\<close>

section \<open>The world of an exporter\<close>

datatype remove_outcome = Removed | NotExist | RemoveFailed os_err

text \<open>What the operating system and the command line client answer: the lookup of a binary, \<^verbatim>\<open>os.MkdirAll\<close>,
  \<^verbatim>\<open>os.Remove\<close>, \<^verbatim>\<open>StdinPipe\<close>, \<^verbatim>\<open>Start\<close>, how many bytes the child reads before it closes its input, \<^verbatim>\<open>Close\<close>,
  the error and standard error of \<^verbatim>\<open>Wait\<close>, the environment, and the output of helper commands.\<close>

record cli_env =
  ce_lookpath :: "string \<Rightarrow> os_err option"
  ce_mkdirAll :: "string \<Rightarrow> os_err option"
  ce_remove :: "string \<Rightarrow> remove_outcome"
  ce_stdin_err :: "os_err option"
  ce_start_err :: "os_err option"
  ce_room :: nat
  ce_close_err :: "os_err option"
  ce_wait :: "(os_err \<times> string) option"
  ce_environ :: "string list"
  ce_run :: "string \<Rightarrow> string list \<Rightarrow> string \<times> (os_err \<times> string) option"

text \<open>A command as started: name, arguments, environment (\<open>None\<close> for the inherited one).\<close>

type_synonym command_line = "string \<times> string list \<times> string list option"

record export_run =
  xr_err :: "export_err option"
  xr_cmds :: "command_line list"
  xr_sent :: bytes
  xr_killed :: bool

definition stopped :: "command_line list \<Rightarrow> export_err \<Rightarrow> export_run" where
  "stopped cmds err = \<lparr>xr_err = Some err, xr_cmds = cmds, xr_sent = [], xr_killed = False\<rparr>"

section \<open>Writing a script\<close>

type_synonym script_state = "pipe bufio \<times> export_err option"

definition and_then :: "'s \<times> export_err option \<Rightarrow> ('s \<Rightarrow> 's \<times> export_err option) \<Rightarrow> 's \<times> export_err option" where
  "and_then r k = (case r of (s, Some err) \<Rightarrow> (s, Some err) | (s, None) \<Rightarrow> k s)"

definition in_context :: "string \<Rightarrow> 's \<times> export_err option \<Rightarrow> 's \<times> export_err option" where
  "in_context msg r = (case r of (s, err) \<Rightarrow> (s, map_option (Context msg) err))"

text \<open>One call of \<^verbatim>\<open>fmt.Fprint\<close>, \<^verbatim>\<open>Fprintln\<close> or \<^verbatim>\<open>Fprintf\<close>: the formatted text in one write.\<close>

definition put :: "bytes \<Rightarrow> pipe bufio \<Rightarrow> script_state" where
  "put text w = (case bw_write pipe_write w text of (w', e) \<Rightarrow> (w', if e then Some WriteError else None))"

fun puts :: "(string \<times> bytes) list \<Rightarrow> pipe bufio \<Rightarrow> script_state" where
  "puts [] w = (w, None)"
| "puts ((msg, text) # rest) w = and_then (in_context msg (put text w)) (puts rest)"

text \<open>The body of an exporter: the statements before the rows, one insert per record of the file, the
  commit.\<close>

definition script_body ::
  "(string \<times> bytes) list \<Rightarrow> string \<Rightarrow> (TraceRecord \<Rightarrow> bytes) \<Rightarrow> string \<Rightarrow> string \<Rightarrow> jsonl_file \<Rightarrow>
   pipe bufio \<Rightarrow> script_state" where
  "script_body preamble streamMsg ins commitMsg jsonlPath file w =
     and_then (puts preamble w) (\<lambda>w.
     and_then (in_context streamMsg (StreamJSONL jsonlPath file (\<lambda>record. put (ins record)) w)) (\<lambda>w.
     in_context commitMsg (put (''COMMIT;'' @ [newline]) w)))"

text \<open>\<^verbatim>\<open>abort\<close>: close the pipe, kill the child, wait, return the error.\<close>

definition abort :: "command_line list \<Rightarrow> pipe bufio \<Rightarrow> export_err \<Rightarrow> export_run" where
  "abort cmds w err =
     \<lparr>xr_err = Some err, xr_cmds = cmds, xr_sent = pipe_sent (bw_sink w), xr_killed = True\<rparr>"

text \<open>The rest: abort on an error of the body; flush, close the pipe, wait for the child.\<close>

definition run_child ::
  "cli_env \<Rightarrow> command_line list \<Rightarrow> string \<Rightarrow> string \<Rightarrow> string \<Rightarrow> script_state \<Rightarrow> export_run" where
  "run_child env cmds flushMsg closeMsg failMsg body =
     (case body of
        (w, Some err) \<Rightarrow> abort cmds w err
      | (w, None) \<Rightarrow>
        (case bw_flush pipe_write w of
           (w, True) \<Rightarrow> abort cmds w (Context flushMsg WriteError)
         | (w, False) \<Rightarrow>
           (case ce_close_err env of
              Some err \<Rightarrow> abort cmds w (Context closeMsg (OsError err))
            | None \<Rightarrow>
                \<lparr>xr_err =
                   (case ce_wait env of
                      None \<Rightarrow> None
                    | Some (err, stderr) \<Rightarrow>
                        if TrimSpace stderr = [] then Some (Context failMsg (OsError err))
                        else Some (Context failMsg (CliError err (TrimSpace stderr)))),
                 xr_cmds = cmds, xr_sent = pipe_sent (bw_sink w), xr_killed = False\<rparr>)))"

lemma xr_cmds_simps [simp]:
  "xr_cmds (stopped cmds err) = cmds" "xr_cmds (abort cmds w err) = cmds"
  by (simp_all add: stopped_def abort_def)

lemma xr_cmds_run_child [simp]: "xr_cmds (run_child env cmds flushMsg closeMsg failMsg body) = cmds"
  by (auto simp: run_child_def split: prod.splits option.splits bool.splits)

definition child_stdin :: "cli_env \<Rightarrow> pipe bufio" where
  "child_stdin env = NewWriterSize \<lparr>pipe_sent = [], pipe_room = ce_room env\<rparr> 4096"

section \<open>What a file holds\<close>

text \<open>The records read from a file, before the error if there is one.\<close>

definition file_records :: "string \<Rightarrow> jsonl_file \<Rightarrow> TraceRecord list" where
  "file_records jsonlPath file = fst (StreamJSONL jsonlPath file collect [])"

definition file_ok :: "string \<Rightarrow> jsonl_file \<Rightarrow> bool" where
  "file_ok jsonlPath file \<longleftrightarrow> snd (StreamJSONL jsonlPath file collect []) = None"

lemma collect_prefix: "prefix rs (fst (stream_lines n ls collect rs))"
proof (induction ls arbitrary: n rs)
  case (Cons l ls)
  have "prefix rs (fst (stream_lines (n + 1) ls collect (rs @ [r])))" for r
    using Cons [of "rs @ [r]" "n + 1"] by (meson prefixI prefix_order.trans)
  with Cons [of rs "n + 1"] show ?case
    by (auto simp: collect_def [of _ rs] Let_def split: option.splits)
qed simp

text \<open>A callback that writes records: \<open>wrote rs s\<close> says the state holds exactly \<open>rs\<close>, \<open>tried rs s\<close> that nothing
  beyond \<open>rs\<close> was written.\<close>

locale record_writer =
  fixes fn :: "TraceRecord \<Rightarrow> 's \<Rightarrow> 's \<times> export_err option"
    and wrote :: "TraceRecord list \<Rightarrow> 's \<Rightarrow> bool"
    and tried :: "TraceRecord list \<Rightarrow> 's \<Rightarrow> bool"
  assumes wrote_tried: "wrote rs s \<Longrightarrow> tried rs s"
    and fn_ok: "wrote rs s \<Longrightarrow> fn r s = (s', None) \<Longrightarrow> wrote (rs @ [r]) s'"
    and fn_err: "wrote rs s \<Longrightarrow> fn r s = (s', Some e) \<Longrightarrow> tried (rs @ [r]) s'"
begin

lemma stream_lines_tried:
  assumes "wrote rs s" "stream_lines n ls fn s = (s', err)"
  shows "(\<exists>us. prefix us (fst (stream_lines n ls collect rs)) \<and> tried us s') \<and>
    (err = None \<longrightarrow> snd (stream_lines n ls collect rs) = None \<and> wrote (fst (stream_lines n ls collect rs)) s')"
  using assms
proof (induction ls arbitrary: n s rs)
  case Nil
  then show ?case using wrote_tried by auto
next
  case (Cons l ls)
  show ?case
  proof (cases "TrimSpace l = [] \<or> Unmarshal (TrimSpace l) = None")
    case True
    with Cons wrote_tried show ?thesis by (auto simp: Let_def)
  next
    case False
    then obtain r where r: "TrimSpace l \<noteq> []" "Unmarshal (TrimSpace l) = Some r" by auto
    have c: "stream_lines n (l # ls) collect rs = stream_lines (n + 1) ls collect (rs @ [r])"
      using r by (simp add: collect_def)
    obtain s1 e where f: "fn r s = (s1, e)" by (cases "fn r s")
    show ?thesis
    proof (cases e)
      case None
      with f r Cons.prems Cons.IH [OF fn_ok [OF Cons.prems(1), of r s1], of "n + 1"] c show ?thesis by simp
    next
      case (Some e1)
      with f r Cons.prems have "s' = s1" "err \<noteq> None" by auto
      with fn_err [OF Cons.prems(1), of r s1 e1] f Some collect_prefix [of "rs @ [r]" "n + 1" ls]
      show ?thesis unfolding c by blast
    qed
  qed
qed

lemma StreamJSONL_tried:
  assumes "wrote [] s" "StreamJSONL path file fn s = (s', err)"
  shows "(\<exists>us. prefix us (file_records path file) \<and> tried us s') \<and>
    (err = None \<longrightarrow> file_ok path file \<and> wrote (file_records path file) s')"
proof (cases "jf_open_err file")
  case (Some e)
  with assms wrote_tried [OF assms(1)] show ?thesis
    by (auto simp: StreamJSONL_def file_records_def)
next
  case None
  obtain ls long where ls: "scan_lines (1024 * 1024) (jf_bytes file) = (ls, long)"
    by (cases "scan_lines (1024 * 1024) (jf_bytes file)")
  obtain s1 e1 where f: "stream_lines 0 ls fn s = (s1, e1)" by (cases "stream_lines 0 ls fn s")
  obtain rs e2 where c: "stream_lines 0 ls collect [] = (rs, e2)" by (cases "stream_lines 0 ls collect []")
  have rs: "file_records path file = rs"
    using None ls c by (auto simp: file_records_def StreamJSONL_def split: option.splits if_splits)
  have s': "s' = s1"
    using assms(2) None ls f by (auto simp: StreamJSONL_def split: option.splits if_splits)
  have "(\<exists>us. prefix us rs \<and> tried us s1) \<and> (e1 = None \<longrightarrow> e2 = None \<and> wrote rs s1)"
    using stream_lines_tried [OF assms(1) f] c by simp
  moreover have "e1 = None \<and> file_ok path file" if "err = None" "e1 = None \<longrightarrow> e2 = None"
    using assms(2) None ls f c that
    by (auto simp: StreamJSONL_def file_ok_def split: option.splits if_splits)
  ultimately show ?thesis using rs s' by blast
qed

end

section \<open>Writing to the pipe\<close>

lemma put_ok: "put bs w = (w', None) \<Longrightarrow> pip.stream w' = pip.stream w @ bs \<and> \<not> bw_err w'"
  by (auto simp: put_def split: prod.splits if_splits dest: pip.write_stream pip.write_err)

lemma put_prefix: "put bs w = (w', err) \<Longrightarrow> prefix (pipe_sent (bw_sink w')) (pip.stream w @ bs)"
  by (auto simp: put_def split: prod.splits if_splits dest: pip.write_prefix)

lemma put_fits: "pip.fits w (length bs + k) \<Longrightarrow> \<exists>w'. put bs w = (w', None) \<and> pip.fits w' k"
  using pip.write_fits [of w bs k] by (cases "bw_write pipe_write w bs") (simp add: put_def)

lemma puts_ok: "puts ps w = (w', None) \<Longrightarrow> pip.stream w' = pip.stream w @ concat (map snd ps)"
proof (induction ps arbitrary: w)
  case (Cons p ps)
  obtain msg bs where p: "p = (msg, bs)" by (cases p)
  from Cons.prems obtain w1 where "put bs w = (w1, None)" "puts ps w1 = (w', None)"
    by (auto simp: p and_then_def in_context_def split: prod.splits option.splits)
  with Cons.IH put_ok show ?case by (fastforce simp: p)
qed simp

lemma puts_prefix: "puts ps w = (w', err) \<Longrightarrow> prefix (pipe_sent (bw_sink w')) (pip.stream w @ concat (map snd ps))"
proof (induction ps arbitrary: w)
  case Nil
  then show ?case by (simp add: pip.stream_def)
next
  case (Cons p ps)
  obtain msg bs where p: "p = (msg, bs)" by (cases p)
  obtain w1 e where w1: "put bs w = (w1, e)" by (cases "put bs w")
  show ?case
  proof (cases e)
    case None
    with Cons w1 put_ok [of bs w w1] show ?thesis by (fastforce simp: p and_then_def in_context_def)
  next
    case (Some e1)
    with Cons.prems w1 put_prefix [OF w1] show ?thesis
      by (auto simp: p and_then_def in_context_def intro: prefix_order.trans)
  qed
qed

lemma puts_fits:
  "pip.fits w (length (concat (map snd ps)) + k) \<Longrightarrow> \<exists>w'. puts ps w = (w', None) \<and> pip.fits w' k"
proof (induction ps arbitrary: w)
  case (Cons p ps)
  obtain msg bs where p: "p = (msg, bs)" by (cases p)
  from Cons.prems obtain w1 where w1: "put bs w = (w1, None)" "pip.fits w1 (length (concat (map snd ps)) + k)"
    using put_fits [of w bs "length (concat (map snd ps)) + k"] by (auto simp: p add.assoc)
  from Cons.IH [OF w1(2)] w1(1) show ?case by (auto simp: p and_then_def in_context_def)
qed simp

interpretation pipe_rows: record_writer "\<lambda>record. put (ins record)"
  "\<lambda>rs w. pip.stream w = base @ concat (map ins rs)"
  "\<lambda>rs w. prefix (pipe_sent (bw_sink w)) (base @ concat (map ins rs))" for ins base
proof
  show "prefix (pipe_sent (bw_sink w)) (base @ concat (map ins rs))"
    if "pip.stream w = base @ concat (map ins rs)" for rs w
    by (simp add: that [symmetric] pip.stream_def)
next
  show "pip.stream w' = base @ concat (map ins (rs @ [r]))"
    if "pip.stream w = base @ concat (map ins rs)" "put (ins r) w = (w', None)" for rs w r w'
    using put_ok [OF that(2)] that(1) by simp
next
  show "prefix (pipe_sent (bw_sink w')) (base @ concat (map ins (rs @ [r])))"
    if "pip.stream w = base @ concat (map ins rs)" "put (ins r) w = (w', Some e)" for rs w r w' e
    using put_prefix [OF that(2)] that(1) by simp
qed

text \<open>A callback that succeeds as long as there is room for what it writes.\<close>

locale roomy_writer =
  fixes fn :: "TraceRecord \<Rightarrow> 's \<Rightarrow> 's \<times> export_err option"
    and text_of :: "TraceRecord \<Rightarrow> bytes"
    and fits_in :: "'s \<Rightarrow> nat \<Rightarrow> bool"
  assumes fn_fits: "fits_in s (length (text_of r) + k) \<Longrightarrow> \<exists>s'. fn r s = (s', None) \<and> fits_in s' k"
begin

lemma stream_lines_fits:
  "stream_lines n ls collect acc = (acc @ rs, None) \<Longrightarrow> fits_in s (length (concat (map text_of rs)) + k) \<Longrightarrow>
   \<exists>s'. stream_lines n ls fn s = (s', None) \<and> fits_in s' k"
proof (induction ls arbitrary: n acc rs s)
  case (Cons l ls)
  show ?case
  proof (cases "TrimSpace l = []")
    case True
    with Cons show ?thesis by (simp add: Let_def)
  next
    case False
    with Cons.prems(1) obtain r where r: "Unmarshal (TrimSpace l) = Some r"
      by (auto simp: Let_def split: option.splits)
    have c: "stream_lines (n + 1) ls collect (acc @ [r]) = (acc @ rs, None)"
      using Cons.prems(1) False r by (simp add: Let_def collect_def [of _ acc])
    then have "prefix (acc @ [r]) (acc @ rs)" using collect_prefix [of "acc @ [r]" "n + 1" ls] by simp
    then obtain rs' where rs: "rs = r # rs'" by (auto simp: prefix_def)
    obtain s1 where s1: "fn r s = (s1, None)" "fits_in s1 (length (concat (map text_of rs')) + k)"
      using fn_fits [of s r "length (concat (map text_of rs')) + k"] Cons.prems(2) by (auto simp: rs add.assoc)
    from Cons.IH [of "n + 1" "acc @ [r]" rs' s1] c rs s1 False r show ?thesis by (simp add: Let_def)
  qed
qed auto

lemma StreamJSONL_fits:
  assumes "file_ok path fl" "fits_in s (length (concat (map text_of (file_records path fl))) + k)"
  shows "\<exists>s'. StreamJSONL path fl fn s = (s', None) \<and> fits_in s' k"
proof -
  obtain ls long where ls: "scan_lines (1024 * 1024) (jf_bytes fl) = (ls, long)"
    by (cases "scan_lines (1024 * 1024) (jf_bytes fl)")
  obtain rs e where c: "stream_lines 0 ls collect [] = (rs, e)" by (cases "stream_lines 0 ls collect []")
  have ok: "jf_open_err fl = None" "e = None" "\<not> long" "jf_read_err fl = None" "file_records path fl = rs"
    using assms(1) ls c by (auto simp: file_ok_def file_records_def StreamJSONL_def split: option.splits if_splits)
  from stream_lines_fits [of 0 ls "[]" rs s k] c ok assms(2) ls show ?thesis
    by (auto simp: StreamJSONL_def)
qed

end

interpretation pipe_fits: roomy_writer "\<lambda>record. put (ins record)" ins pip.fits for ins
  by unfold_locales (rule put_fits)

section \<open>The script\<close>

definition commit_text :: bytes where
  "commit_text = ''COMMIT;'' @ [newline]"

lemma script_body_ok:
  assumes "script_body preamble streamMsg ins commitMsg path file w = (w', None)"
  shows "file_ok path file \<and> pip.stream w' =
    pip.stream w @ concat (map snd preamble) @ concat (map ins (file_records path file)) @ commit_text"
proof -
  from assms obtain w1 w2 where w: "puts preamble w = (w1, None)"
    "StreamJSONL path file (\<lambda>record. put (ins record)) w1 = (w2, None)" "put commit_text w2 = (w', None)"
    by (auto simp: script_body_def and_then_def in_context_def commit_text_def split: prod.splits option.splits)
  have "file_ok path file \<and> pip.stream w2 = pip.stream w1 @ concat (map ins (file_records path file))"
    using pipe_rows.StreamJSONL_tried [OF _ w(2), of "pip.stream w1"] by simp
  then show ?thesis using puts_ok [OF w(1)] put_ok [OF w(3)] by simp
qed

lemma script_body_err:
  assumes "script_body preamble streamMsg ins commitMsg path file w = (w', Some err)"
  shows "prefix (pipe_sent (bw_sink w'))
      (pip.stream w @ concat (map snd preamble) @ concat (map ins (file_records path file)) @
       (if file_ok path file then commit_text else []))"
proof -
  let ?pre = "pip.stream w @ concat (map snd preamble)" and ?rows = "concat (map ins (file_records path file))"
  obtain w1 e1 where w1: "puts preamble w = (w1, e1)" by (cases "puts preamble w")
  show ?thesis
  proof (cases e1)
    case (Some e)
    with assms w1 have "w' = w1" by (simp add: script_body_def and_then_def)
    with puts_prefix [OF w1] show ?thesis by (metis append.assoc prefixI prefix_order.trans)
  next
    case None
    have base: "pip.stream w1 = ?pre" using puts_ok w1 None by simp
    obtain w2 e2 where w2: "StreamJSONL path file (\<lambda>record. put (ins record)) w1 = (w2, e2)"
      by (cases "StreamJSONL path file (\<lambda>record. put (ins record)) w1")
    have rows: "(\<exists>us. prefix us (file_records path file) \<and> prefix (pipe_sent (bw_sink w2)) (?pre @ concat (map ins us))) \<and>
        (e2 = None \<longrightarrow> file_ok path file \<and> pip.stream w2 = ?pre @ ?rows)"
      using pipe_rows.StreamJSONL_tried [OF _ w2, of ?pre] base by simp
    show ?thesis
    proof (cases e2)
      case (Some e)
      with assms w1 None w2 have "w' = w2" by (simp add: script_body_def and_then_def in_context_def)
      from rows obtain us where us: "prefix us (file_records path file)"
        "prefix (pipe_sent (bw_sink w2)) (?pre @ concat (map ins us))" by blast
      then have "prefix (pipe_sent (bw_sink w2)) (?pre @ ?rows)"
        by (auto simp: prefix_def) (metis append.assoc)
      with \<open>w' = w2\<close> show ?thesis by (metis append.assoc prefixI prefix_order.trans)
    next
      case none2: None
      with assms w1 None w2 obtain e3 where "put commit_text w2 = (w', Some e3)"
        by (auto simp: script_body_def and_then_def in_context_def commit_text_def split: prod.splits)
      from put_prefix [OF this] rows none2 show ?thesis by simp
    qed
  qed
qed

lemma script_body_fits:
  assumes "file_ok path file"
    "pip.fits w (length (concat (map snd preamble) @ concat (map ins (file_records path file)) @ commit_text))"
  shows "\<exists>w'. script_body preamble streamMsg ins commitMsg path file w = (w', None) \<and> pip.fits w' 0"
proof -
  obtain w1 where w1: "puts preamble w = (w1, None)"
      "pip.fits w1 (length (concat (map ins (file_records path file))) + (length commit_text + 0))"
    using puts_fits [of w preamble "length (concat (map ins (file_records path file))) + (length commit_text + 0)"] assms(2)
    by (auto simp: add.assoc)
  obtain w2 where w2: "StreamJSONL path file (\<lambda>r. put (ins r)) w1 = (w2, None)" "pip.fits w2 (length commit_text + 0)"
    using pipe_fits.StreamJSONL_fits [OF assms(1) w1(2)] by blast
  obtain w3 where w3: "put commit_text w2 = (w3, None)" "pip.fits w3 0" using put_fits [OF w2(2)] by blast
  from w1 w2 w3 show ?thesis
    by (simp add: script_body_def and_then_def in_context_def commit_text_def)
qed

section \<open>The contract of a script exporter\<close>

text \<open>\<open>started env\<close> says the child was started; before that an exporter only fails. Afterwards it is the
  body with its own messages, statements and command lines.\<close>

locale script_exporter =
  fixes export_to :: "cli_env \<Rightarrow> string \<Rightarrow> jsonl_file \<Rightarrow> export_run"
    and started :: "cli_env \<Rightarrow> bool"
    and preamble :: "(string \<times> bytes) list"
    and ins :: "TraceRecord \<Rightarrow> bytes"
  assumes export_started: "started env \<Longrightarrow> \<exists>cmds flushMsg closeMsg failMsg streamMsg commitMsg.
      export_to env path file = run_child env cmds flushMsg closeMsg failMsg
        (script_body preamble streamMsg ins commitMsg path file (child_stdin env))"
    and export_not_started: "\<not> started env \<Longrightarrow>
      xr_err (export_to env path file) \<noteq> None \<and> xr_sent (export_to env path file) = [] \<and>
      \<not> xr_killed (export_to env path file)"
begin

definition script :: "TraceRecord list \<Rightarrow> bytes" where
  "script rs = concat (map snd preamble) @ concat (map ins rs) @ commit_text"

lemma stdin_empty: "pip.stream (child_stdin env) = []"
  by (simp add: child_stdin_def pip.stream_def NewWriterSize_def)

text \<open>Success: the file was read to its end without error, the child read the whole script and ended
  well.\<close>

lemma success:
  assumes "xr_err (export_to env path file) = None"
  shows "started env \<and> file_ok path file \<and> ce_wait env = None \<and> \<not> xr_killed (export_to env path file) \<and>
    xr_sent (export_to env path file) = script (file_records path file)"
proof -
  have st: "started env" using assms export_not_started by blast
  then obtain cmds flushMsg closeMsg failMsg streamMsg commitMsg where r: "export_to env path file =
      run_child env cmds flushMsg closeMsg failMsg
        (script_body preamble streamMsg ins commitMsg path file (child_stdin env))"
    using export_started by meson
  obtain w e where w: "script_body preamble streamMsg ins commitMsg path file (child_stdin env) = (w, e)"
    by (cases "script_body preamble streamMsg ins commitMsg path file (child_stdin env)")
  obtain w' e' where f: "bw_flush pipe_write w = (w', e')" by (cases "bw_flush pipe_write w")
  have ok: "e = None" "\<not> e'" "ce_close_err env = None" "ce_wait env = None"
    using assms r w f by (auto simp: run_child_def abort_def split: option.splits bool.splits if_splits prod.splits)
  have "pipe_sent (bw_sink w') = pip.stream w" using pip.flush_delivers f ok(2) by auto
  with script_body_ok [of preamble streamMsg ins commitMsg path "file" "child_stdin env" w] w ok f r st show ?thesis
    by (simp add: run_child_def script_def stdin_empty)
qed

text \<open>Failure of the input: the child is killed before any commit was written.\<close>

lemma bad_input:
  assumes "\<not> file_ok path file"
  shows "xr_err (export_to env path file) \<noteq> None \<and> (started env \<longrightarrow> xr_killed (export_to env path file)) \<and>
    prefix (xr_sent (export_to env path file)) (concat (map snd preamble) @ concat (map ins (file_records path file)))"
proof (cases "started env")
  case True
  then obtain cmds flushMsg closeMsg failMsg streamMsg commitMsg where r: "export_to env path file =
      run_child env cmds flushMsg closeMsg failMsg
        (script_body preamble streamMsg ins commitMsg path file (child_stdin env))"
    using export_started by meson
  obtain w e where w: "script_body preamble streamMsg ins commitMsg path file (child_stdin env) = (w, e)"
    by (cases "script_body preamble streamMsg ins commitMsg path file (child_stdin env)")
  obtain e0 where "e = Some e0" using script_body_ok w assms by (cases e) blast+
  with r w script_body_err [of preamble streamMsg ins commitMsg path "file" "child_stdin env" w e0] assms show ?thesis
    by (simp add: run_child_def abort_def stdin_empty)
next
  case False
  then show ?thesis using export_not_started by simp
qed

text \<open>When nothing goes wrong outside, a readable file is exported.\<close>

lemma complete:
  assumes "started env" "file_ok path file" "length (script (file_records path file)) \<le> ce_room env"
    "ce_close_err env = None" "ce_wait env = None"
  shows "xr_err (export_to env path file) = None"
proof -
  obtain cmds flushMsg closeMsg failMsg streamMsg commitMsg where r: "export_to env path file =
      run_child env cmds flushMsg closeMsg failMsg
        (script_body preamble streamMsg ins commitMsg path file (child_stdin env))"
    using export_started [OF assms(1)] by meson
  have "pip.fits (child_stdin env) (length (script (file_records path file)))"
    using assms(3) by (simp add: pip.fits_def child_stdin_def NewWriterSize_def)
  then obtain w where w: "script_body preamble streamMsg ins commitMsg path file (child_stdin env) = (w, None)"
      "pip.fits w 0"
    using script_body_fits [OF assms(2), of "child_stdin env"] unfolding script_def by blast
  obtain w' where "bw_flush pipe_write w = (w', False)"
    using pip.flush_fits [OF w(2)] by (cases "bw_flush pipe_write w") simp
  with r w assms(4,5) show ?thesis by (simp add: run_child_def)
qed

end

section \<open>A log and a world in which everything works\<close>

definition log_file :: "slot_event list \<Rightarrow> jsonl_file" where
  "log_file evs = \<lparr>jf_open_err = None, jf_bytes = concat (map event_line evs), jf_read_err = None\<rparr>"

lemma log_file_ok: "file_ok path (log_file evs)" "file_records path (log_file evs) = map event_record evs"
  by (simp_all add: file_ok_def file_records_def log_file_def StreamJSONL_events feed_collect)

definition good_env :: "nat \<Rightarrow> cli_env" where
  "good_env room =
     \<lparr>ce_lookpath = (\<lambda>_. None), ce_mkdirAll = (\<lambda>_. None), ce_remove = (\<lambda>_. NotExist), ce_stdin_err = None,
      ce_start_err = None, ce_room = room, ce_close_err = None, ce_wait = None, ce_environ = [''PATH=/bin''],
      ce_run = (\<lambda>_ _. (''1'' @ [newline], None))\<rparr>"

lemma good_env_fields [simp]:
  "ce_lookpath (good_env n) c = None" "ce_mkdirAll (good_env n) d = None" "ce_remove (good_env n) p = NotExist"
  "ce_stdin_err (good_env n) = None" "ce_start_err (good_env n) = None" "ce_room (good_env n) = n"
  "ce_close_err (good_env n) = None" "ce_wait (good_env n) = None"
  "ce_run (good_env n) c as = (''1'' @ [newline], None)"
  by (simp_all add: good_env_def)

text \<open>Nothing in the examples needs more of \<^verbatim>\<open>fmt\<close> than the verbs modelled.\<close>

definition demo_printf :: "string \<Rightarrow> fmt_arg list \<Rightarrow> string" where
  "demo_printf format as = []"

definition demo_event :: slot_event where
  "demo_event = \<lparr>ev_probe = 7, ev_seq = 2, ev_tid = 42, ev_addr = 0xff, ev_active = True, ev_ts = 1000\<rparr>"

text \<open>A file whose second line is no record.\<close>

definition broken_file :: jsonl_file where
  "broken_file = \<lparr>jf_open_err = None, jf_bytes = event_line demo_event @ ''{'' @ [newline], jf_read_err = None\<rparr>"

lemma broken_file_records: "file_records path broken_file = [event_record demo_event]" "\<not> file_ok path broken_file"
proof -
  have bad: "Unmarshal (TrimSpace (drop_cr ''{'')) = None" "TrimSpace (drop_cr ''{'') \<noteq> []" by code_simp+
  have "scan_lines (1024 * 1024) (jf_bytes broken_file) =
      ([event_text demo_event, drop_cr ''{''], snd (scan_lines (1024 * 1024) (''{'' @ [newline])))"
    using scan_lines_events [of "1024 * 1024" "[demo_event]" "''{'' @ [newline]"]
    by (simp add: broken_file_def) (simp add: scan_lines_def raw_lines_def)
  then have "StreamJSONL path broken_file collect [] =
      ([event_record demo_event], Some (ContextLine ''decode jsonl line'' 2 JsonError))"
    using stream_events [of 0 "[demo_event]" "[drop_cr ''{'']" collect "[]"] bad
    by (simp add: StreamJSONL_def broken_file_def collect_def [of _ "[]"])
  then show "file_records path broken_file = [event_record demo_event]" "\<not> file_ok path broken_file"
    by (simp_all add: file_records_def file_ok_def)
qed

end
