(* ===== verification/Export_SQLite.thy ===== *)
theory Export_SQLite
  imports Export_Pipe
begin

text \<open>\<^verbatim>\<open>export/sqlite.go\<close>: the schema, the insert statement and the exporter through the \<^verbatim>\<open>sqlite3\<close> client.\<close>

section \<open>The code\<close>

definition sqliteSchemaSQL :: string where
  "sqliteSchemaSQL =
     ''CREATE TABLE IF NOT EXISTS '' @ DefaultTableName @ '' ('' @ [newline] @
     ''  id INTEGER PRIMARY KEY AUTOINCREMENT,'' @ [newline] @
     ''  probe_id TEXT NOT NULL,'' @ [newline] @
     ''  tid INTEGER NOT NULL,'' @ [newline] @
     ''  addr TEXT NOT NULL,'' @ [newline] @
     ''  seq INTEGER NOT NULL,'' @ [newline] @
     ''  is_active INTEGER NOT NULL CHECK (is_active IN (0, 1)),'' @ [newline] @
     ''  ts INTEGER NOT NULL'' @ [newline] @
     '');'' @ [newline] @
     ''CREATE INDEX IF NOT EXISTS idx_'' @ DefaultTableName @ ''_probe_seq ON '' @ DefaultTableName @ '' (probe_id, seq);'' @ [newline] @
     ''CREATE INDEX IF NOT EXISTS idx_'' @ DefaultTableName @ ''_tid_ts ON '' @ DefaultTableName @ '' (tid, ts);'' @ [newline] @
     ''CREATE INDEX IF NOT EXISTS idx_'' @ DefaultTableName @ ''_ts ON '' @ DefaultTableName @ '' (ts);'' @ [newline]"

text \<open>\<^verbatim>\<open>insertSQL\<close> with its verbs filled in.\<close>

definition sqlite_insert :: "TraceRecord \<Rightarrow> bytes" where
  "sqlite_insert record =
     ''INSERT INTO '' @ DefaultTableName @ '' (probe_id, tid, addr, seq, is_active, ts) VALUES ('' @
     [squote] @ FormatUint (rec_ProbeID record) @ [squote] @ '', '' @ FormatUint (rec_TID record) @ '', '' @
     [squote] @ escapeSQLiteString (rec_Addr record) @ [squote] @ '', '' @ FormatUint (rec_Seq record) @ '', '' @
     FormatInt (boolToInt (rec_IsActive record)) @ '', '' @ FormatUint (rec_TS record) @ '');'' @ [newline]"

definition sqlite_preamble :: "(string \<times> bytes) list" where
  "sqlite_preamble =
     [(''write sqlite pragma'', ''PRAGMA journal_mode=WAL;'' @ [newline]),
      (''write sqlite pragma'', ''PRAGMA synchronous=NORMAL;'' @ [newline]),
      (''write sqlite schema'', sqliteSchemaSQL),
      (''open sqlite transaction'', ''BEGIN IMMEDIATE;'' @ [newline])]"

definition ExportJSONLToSQLite :: "string \<Rightarrow> cli_env \<Rightarrow> string \<Rightarrow> jsonl_file \<Rightarrow> export_run" where
  "ExportJSONLToSQLite sqlitePath env jsonlPath file =
     (case ce_lookpath env ''sqlite3'' of
        Some err \<Rightarrow> stopped [] (Context ''sqlite3 binary not found in PATH'' (OsError err))
      | None \<Rightarrow>
     (case ensureParentDir (ce_mkdirAll env) sqlitePath of
        Some err \<Rightarrow> stopped [] (Context ''create parent directory for sqlite output'' (OsError err))
      | None \<Rightarrow>
     (case ce_remove env sqlitePath of
        RemoveFailed err \<Rightarrow> stopped [] (ContextPath ''remove existing sqlite database'' sqlitePath (OsError err))
      | _ \<Rightarrow>
     (case ce_stdin_err env of
        Some err \<Rightarrow> stopped [] (Context ''open sqlite3 stdin'' (OsError err))
      | None \<Rightarrow>
     (case ce_start_err env of
        Some err \<Rightarrow> stopped [] (Context ''start sqlite3'' (OsError err))
      | None \<Rightarrow>
          run_child env [(''sqlite3'', [sqlitePath], None)]
            ''flush sqlite stream'' ''close sqlite stream'' ''sqlite3 execution failed''
            (script_body sqlite_preamble ''stream jsonl into sqlite inserts'' sqlite_insert
               ''commit sqlite transaction'' jsonlPath file (child_stdin env)))))))"

section \<open>Correctness\<close>

definition sqlite_started :: "string \<Rightarrow> cli_env \<Rightarrow> bool" where
  "sqlite_started sqlitePath env \<longleftrightarrow>
     ce_lookpath env ''sqlite3'' = None \<and> ensureParentDir (ce_mkdirAll env) sqlitePath = None \<and>
     (\<forall>err. ce_remove env sqlitePath \<noteq> RemoveFailed err) \<and> ce_stdin_err env = None \<and> ce_start_err env = None"

interpretation sqlite: script_exporter "ExportJSONLToSQLite sqlitePath" "sqlite_started sqlitePath" sqlite_preamble sqlite_insert
  for sqlitePath
proof
  show "\<exists>cmds flushMsg closeMsg failMsg streamMsg commitMsg.
      ExportJSONLToSQLite sqlitePath env path fl = run_child env cmds flushMsg closeMsg failMsg
        (script_body sqlite_preamble streamMsg sqlite_insert commitMsg path fl (child_stdin env))"
    if "sqlite_started sqlitePath env" for env path fl
  proof -
    have "ExportJSONLToSQLite sqlitePath env path fl = run_child env [(''sqlite3'', [sqlitePath], None)]
            ''flush sqlite stream'' ''close sqlite stream'' ''sqlite3 execution failed''
            (script_body sqlite_preamble ''stream jsonl into sqlite inserts'' sqlite_insert
               ''commit sqlite transaction'' path fl (child_stdin env))"
      using that by (auto simp: ExportJSONLToSQLite_def sqlite_started_def split: remove_outcome.splits)
    then show ?thesis by blast
  qed
next
  show "xr_err (ExportJSONLToSQLite sqlitePath env path fl) \<noteq> None \<and>
      xr_sent (ExportJSONLToSQLite sqlitePath env path fl) = [] \<and> \<not> xr_killed (ExportJSONLToSQLite sqlitePath env path fl)"
    if "\<not> sqlite_started sqlitePath env" for env path fl
    using that
    by (auto simp: ExportJSONLToSQLite_def sqlite_started_def stopped_def split: option.splits remove_outcome.splits)
qed

definition sqlite_head :: string where
  "sqlite_head = ''INSERT INTO '' @ DefaultTableName @ '' (probe_id, tid, addr, seq, is_active, ts) VALUES (''"

text \<open>What the \<^verbatim>\<open>sqlite3\<close> shell and SQLite take over as it is written. An integer literal of \<open>2 ^ 63\<close> and more is read as a floating point
  number and stays one in an INTEGER column, which concerns \<^verbatim>\<open>tid\<close>, \<^verbatim>\<open>seq\<close> and \<^verbatim>\<open>ts\<close> (the probe identifier is a text). The shell reads its
  input line by line: a line ends at a NUL character, and a carriage return before the newline is dropped.\<close>

fun plain_text :: "string \<Rightarrow> bool" where
  "plain_text [] \<longleftrightarrow> True"
| "plain_text (c # cs) \<longleftrightarrow> c \<noteq> CHR 0x00 \<and> \<not> (c = CHR 0x0D \<and> take 1 cs = [newline]) \<and> plain_text cs"

definition sqlite_exact :: "TraceRecord \<Rightarrow> bool" where
  "sqlite_exact r \<longleftrightarrow>
     rec_TID r < 2 ^ 63 \<and> rec_Seq r < 2 ^ 63 \<and> rec_TS r < 2 ^ 63 \<and> plain_text (rec_Addr r)"

lemma plain_text_chars: "CHR 0x00 \<notin> set s \<Longrightarrow> CHR 0x0D \<notin> set s \<Longrightarrow> plain_text s"
  by (induction s) auto

text \<open>An address of the tracer is plain, so only the numbers of an event count.\<close>

lemma event_record_exact:
  "sqlite_exact (event_record ev) \<longleftrightarrow> ev_tid ev < 2 ^ 63 \<and> ev_seq ev < 2 ^ 63 \<and> ev_ts ev < 2 ^ 63"
proof -
  have "CHR 0x00 \<notin> set (appendHex [] v)" "CHR 0x0D \<notin> set (appendHex [] v)" for v
    using appendHex_chars [of v] by (auto simp: hexChars_def)
  then show ?thesis using plain_text_chars by (auto simp: sqlite_exact_def event_record_def)
qed

interpretation sqlite_rows: insert_dialect escapeSQLiteString "read_doubled squote" sqlite_head "[squote]"
  "\<lambda>b. FormatInt (boolToInt b)" "[(''0'', False), (''1'', True)]" sqlite_exact sqlite_insert
proof
  show "read_flag [(''0'', False), (''1'', True)] (FormatInt (boolToInt b) @ '','' @ s) = Some (b, '','' @ s)" for b s
    by (cases b) (simp_all add: read_flag_def FormatInt_def boolToInt_def dec_eval)
qed (simp_all add: sqlite_insert_def sqlite_head_def)

section \<open>Properties\<close>

abbreviation read_sqlite_row :: "string \<Rightarrow> (TraceRecord \<times> string) option" where
  "read_sqlite_row \<equiv> read_row sqlite_head [squote] (read_doubled squote) [(''0'', False), (''1'', True)] sqlite_exact"

lemma sqlite_good_env: "sqlite_started p (good_env n)"
  by (simp add: sqlite_started_def ensureParentDir_def Let_def)

lemma commit_no_insert: "take 6 commit_text \<noteq> ''INSERT''"
  by (simp add: commit_text_def)

text \<open>C5: When \<^verbatim>\<open>ExportJSONLToSQLite\<close> reports success the file was readable to its end, \<^verbatim>\<open>sqlite3\<close> was sent the pragmas, the
  schema and \<^verbatim>\<open>BEGIN\<close>, then one insert statement per record of the file, in order, then one \<^verbatim>\<open>COMMIT\<close>, and nothing else. SQLite
  reads this back as exactly these records, quotes in the address texts included, if and only if every \<^verbatim>\<open>tid\<close>, \<^verbatim>\<open>seq\<close> and \<^verbatim>\<open>ts\<close> is below
  \<open>2 ^ 63\<close> and no address has a NUL or a carriage return before a newline: other values, which the log can hold, are
  changed on the way in, and still the export reports success.\<close>

theorem sqlite_export_success:
  assumes "xr_err (ExportJSONLToSQLite sqlitePath env jsonlPath fl) = None"
  shows "file_ok jsonlPath fl \<and> \<not> xr_killed (ExportJSONLToSQLite sqlitePath env jsonlPath fl) \<and>
    (\<exists>rows. rows = concat (map sqlite_insert (file_records jsonlPath fl)) @ commit_text \<and>
       xr_sent (ExportJSONLToSQLite sqlitePath env jsonlPath fl) = concat (map snd sqlite_preamble) @ rows \<and>
       (\<forall>n \<ge> length (file_records jsonlPath fl).
          read_rows n read_sqlite_row rows = (file_records jsonlPath fl, commit_text) \<longleftrightarrow>
          list_all sqlite_exact (file_records jsonlPath fl)))"
  using sqlite.success [OF assms] sqlite_rows.read_rows_iff [OF _ commit_no_insert]
  by (simp add: sqlite.script_def)

definition late_event :: slot_event where
  "late_event = demo_event\<lparr>ev_ts := 2 ^ 63\<rparr>"

theorem sqlite_export_success_witness:
  "(\<exists>room. xr_err (ExportJSONLToSQLite ''a.db'' (good_env room) ''t.jsonl'' (log_file [demo_event, late_event])) = None \<and>
     (\<exists>rows. xr_sent (ExportJSONLToSQLite ''a.db'' (good_env room) ''t.jsonl'' (log_file [demo_event, late_event])) =
        concat (map snd sqlite_preamble) @ rows \<and>
        read_rows 2 read_sqlite_row rows \<noteq> ([event_record demo_event, event_record late_event], commit_text))) \<and>
   (\<exists>room. xr_err (ExportJSONLToSQLite ''a.db'' (good_env room) ''t.jsonl'' (log_file [demo_event])) = None \<and>
     (\<exists>rows. xr_sent (ExportJSONLToSQLite ''a.db'' (good_env room) ''t.jsonl'' (log_file [demo_event])) =
        concat (map snd sqlite_preamble) @ rows \<and>
        read_rows 1 read_sqlite_row rows = ([event_record demo_event], commit_text)))"
proof -
  have ok: "\<exists>room. xr_err (ExportJSONLToSQLite ''a.db'' (good_env room) ''t.jsonl'' (log_file evs)) = None" for evs
    by (intro exI [of _ "length (sqlite.script (map event_record evs))"] sqlite.complete)
       (simp_all add: sqlite_good_env log_file_ok)
  have exact: "list_all sqlite_exact [event_record demo_event]" "\<not> sqlite_exact (event_record late_event)"
    by (simp_all add: event_record_exact demo_event_def late_event_def)
  obtain room where r: "xr_err (ExportJSONLToSQLite ''a.db'' (good_env room) ''t.jsonl'' (log_file [demo_event, late_event])) = None"
    using ok by blast
  obtain room' where r': "xr_err (ExportJSONLToSQLite ''a.db'' (good_env room') ''t.jsonl'' (log_file [demo_event])) = None"
    using ok by blast
  have "\<exists>rows. xr_sent (ExportJSONLToSQLite ''a.db'' (good_env room) ''t.jsonl'' (log_file [demo_event, late_event])) =
        concat (map snd sqlite_preamble) @ rows \<and>
        read_rows 2 read_sqlite_row rows \<noteq> ([event_record demo_event, event_record late_event], commit_text)"
    using sqlite_export_success [OF r] exact by (force simp: log_file_ok)
  moreover have "\<exists>rows. xr_sent (ExportJSONLToSQLite ''a.db'' (good_env room') ''t.jsonl'' (log_file [demo_event])) =
        concat (map snd sqlite_preamble) @ rows \<and> read_rows 1 read_sqlite_row rows = ([event_record demo_event], commit_text)"
    using sqlite_export_success [OF r'] exact by (force simp: log_file_ok)
  ultimately show ?thesis using r r' by blast
qed

text \<open>C19: An input file with a broken line (or one that cannot be opened or read to its end) is never committed:
  the export reports an error, a started \<^verbatim>\<open>sqlite3\<close> is killed, and what it was sent is a prefix of the preamble and
  the inserts of the records before the error, so it contains no \<^verbatim>\<open>COMMIT\<close>.\<close>

theorem sqlite_export_bad_input:
  assumes "\<not> file_ok jsonlPath fl"
  shows "xr_err (ExportJSONLToSQLite sqlitePath env jsonlPath fl) \<noteq> None \<and>
    (sqlite_started sqlitePath env \<longrightarrow> xr_killed (ExportJSONLToSQLite sqlitePath env jsonlPath fl)) \<and>
    prefix (xr_sent (ExportJSONLToSQLite sqlitePath env jsonlPath fl))
      (concat (map snd sqlite_preamble) @ concat (map sqlite_insert (file_records jsonlPath fl)))"
  using sqlite.bad_input [OF assms] .

theorem sqlite_export_bad_input_witness:
  "\<not> file_ok ''t.jsonl'' broken_file \<and>
   xr_killed (ExportJSONLToSQLite ''a.db'' (good_env 10000) ''t.jsonl'' broken_file) \<and>
   prefix (xr_sent (ExportJSONLToSQLite ''a.db'' (good_env 10000) ''t.jsonl'' broken_file))
     (concat (map snd sqlite_preamble) @ concat (map sqlite_insert [event_record demo_event]))"
  using sqlite_export_bad_input [OF broken_file_records(2), where sqlitePath = "''a.db''" and env = "good_env 10000"]
    broken_file_records sqlite_good_env
  by simp

text \<open>C20: A readable file is exported whenever nothing fails outside: if the binary is found, the directory and the
  old database are no obstacle, the pipe opens, the child starts, reads the whole script, and ends without
  error, then \<^verbatim>\<open>ExportJSONLToSQLite\<close> returns no error.\<close>

theorem sqlite_export_complete:
  assumes "sqlite_started sqlitePath env" "file_ok jsonlPath fl" "ce_close_err env = None" "ce_wait env = None"
    "length (concat (map snd sqlite_preamble) @ concat (map sqlite_insert (file_records jsonlPath fl)) @ commit_text)
       \<le> ce_room env"
  shows "xr_err (ExportJSONLToSQLite sqlitePath env jsonlPath fl) = None"
  using assms by (intro sqlite.complete) (simp_all add: sqlite.script_def)

theorem sqlite_export_complete_witness:
  "sqlite_started ''a.db'' (good_env 2000) \<and> file_ok ''t.jsonl'' (log_file []) \<and>
   xr_err (ExportJSONLToSQLite ''a.db'' (good_env 2000) ''t.jsonl'' (log_file [])) = None"
proof -
  have st: "sqlite_started ''a.db'' (good_env 2000)" by (rule sqlite_good_env)
  have "length (concat (map snd sqlite_preamble) @ commit_text) \<le> 2000"
    by (simp add: sqlite_preamble_def sqliteSchemaSQL_def DefaultTableName_def commit_text_def)
  with sqlite_export_complete [OF st log_file_ok(1), of "''t.jsonl''" "[]"] st show ?thesis by (simp add: log_file_ok)
qed

end
