(* ===== verification/Export_MySQL.thy ===== *)
theory Export_MySQL
  imports Export_Pipe
begin

text \<open>
  \<^verbatim>\<open>export/mysql.go\<close>: the options, the schema script, the command line of the \<^verbatim>\<open>mysql\<close> client, the insert
  statement and the exporter, and the writer of the schema script.
\<close>

section \<open>The code\<close>

record MySQLExportOptions =
  my_Command :: string
  my_Host :: string
  my_Port :: int
  my_User :: string
  my_Password :: string
  my_Socket :: string
  my_Database :: string
  my_Table :: string

text \<open>The statements of the script, for quoted names.\<close>

definition mysql_schema_statements :: "string \<Rightarrow> string \<Rightarrow> string" where
  "mysql_schema_statements db table =
         ''CREATE DATABASE IF NOT EXISTS '' @ db @ [newline] @
         ''  CHARACTER SET utf8mb4'' @ [newline] @
         ''  COLLATE utf8mb4_unicode_ci;'' @ [newline] @
         [newline] @
         ''USE '' @ db @ '';'' @ [newline] @
         [newline] @
         ''CREATE TABLE IF NOT EXISTS '' @ table @ '' ('' @ [newline] @
         ''  id BIGINT UNSIGNED NOT NULL AUTO_INCREMENT,'' @ [newline] @
         ''  probe_id DECIMAL(20,0) NOT NULL,'' @ [newline] @
         ''  tid DECIMAL(20,0) NOT NULL,'' @ [newline] @
         ''  addr VARCHAR(18) NOT NULL,'' @ [newline] @
         ''  seq DECIMAL(20,0) NOT NULL,'' @ [newline] @
         ''  is_active BOOLEAN NOT NULL,'' @ [newline] @
         ''  ts DECIMAL(20,0) NOT NULL,'' @ [newline] @
         ''  PRIMARY KEY (id),'' @ [newline] @
         ''  KEY idx_probe_seq (probe_id, seq),'' @ [newline] @
         ''  KEY idx_tid_ts (tid, ts),'' @ [newline] @
         ''  KEY idx_ts (ts)'' @ [newline] @
         '') ENGINE=InnoDB'' @ [newline] @
         ''  DEFAULT CHARSET=utf8mb4'' @ [newline] @
         ''  COLLATE=utf8mb4_unicode_ci;'' @ [newline] @
         [newline]"

definition mysqlSchemaSQL :: "string \<Rightarrow> string \<Rightarrow> string" where
  "mysqlSchemaSQL databaseName tableName =
     (let db = quoteMySQLIdentifier databaseName;
          table = quoteMySQLIdentifier (defaultString tableName DefaultTableName)
      in mysql_schema_statements db table @
         ''-- Example CSV load. This matches ExportJSONLToDataFrameCSV output.'' @ [newline] @
         ''-- LOAD DATA LOCAL INFILE '' @ [squote] @ ''/path/to/trace.csv'' @ [squote] @ [newline] @
         ''-- INTO TABLE '' @ table @ [newline] @
         ''-- FIELDS TERMINATED BY '' @ [squote] @ '','' @ [squote] @ [newline] @
         ''-- OPTIONALLY ENCLOSED BY '' @ [squote] @ [dquote] @ [squote] @ [newline] @
         ''-- IGNORE 1 LINES'' @ [newline] @
         ''-- (probe_id, tid, addr, seq, is_active, ts);'' @ [newline])"

definition mysql_args :: "MySQLExportOptions \<Rightarrow> string list" where
  "mysql_args options =
     (let args = [''--batch'', ''--raw''];
          args = (if my_User options \<noteq> [] then args @ [''--user='' @ my_User options] else args)
      in if my_Socket options \<noteq> [] then args @ [''--socket='' @ my_Socket options]
         else
           let host = defaultString (my_Host options) ''127.0.0.1'';
               port = my_Port options;
               port = (if port = 0 then 3306 else port)
           in args @ [''--host='' @ host, ''--port='' @ FormatInt port, ''--protocol=tcp''])"

definition mysql_env :: "cli_env \<Rightarrow> MySQLExportOptions \<Rightarrow> string list" where
  "mysql_env env options =
     (if my_Password options \<noteq> [] then ce_environ env @ [''MYSQL_PWD='' @ my_Password options]
      else ce_environ env)"

text \<open>The format string contains the quoted table name. \<open>printf\<close> is the part of \<^verbatim>\<open>fmt.Fprintf\<close> beyond \<^verbatim>\<open>%d\<close>,
  \<^verbatim>\<open>%s\<close> and \<^verbatim>\<open>%t\<close>, which only a table name can reach.\<close>

definition mysql_insert :: "(string \<Rightarrow> fmt_arg list \<Rightarrow> string) \<Rightarrow> string \<Rightarrow> TraceRecord \<Rightarrow> bytes" where
  "mysql_insert printf tableName record =
     (let insertSQL = ''INSERT INTO '' @ quoteMySQLIdentifier tableName @
            '' (probe_id, tid, addr, seq, is_active, ts) VALUES (%d, %d, '' @ [squote] @ ''%s'' @ [squote] @
            '', %d, %t, %d);'' @ [newline]
      in Sprintf printf insertSQL
           [UintArg (rec_ProbeID record), UintArg (rec_TID record), StrArg (escapeMySQLString (rec_Addr record)),
            UintArg (rec_Seq record), BoolArg (rec_IsActive record), UintArg (rec_TS record)])"

definition mysql_preamble :: "string \<Rightarrow> string \<Rightarrow> (string \<times> bytes) list" where
  "mysql_preamble databaseName tableName =
     [(''write mysql charset setup'', ''SET NAMES utf8mb4;'' @ [newline]),
      (''write mysql schema setup'', mysqlSchemaSQL databaseName tableName),
      (''open mysql transaction'', ''START TRANSACTION;'' @ [newline])]"

definition ExportJSONLToMySQL ::
  "(string \<Rightarrow> fmt_arg list \<Rightarrow> string) \<Rightarrow> MySQLExportOptions \<Rightarrow> cli_env \<Rightarrow> string \<Rightarrow> jsonl_file \<Rightarrow> export_run" where
  "ExportJSONLToMySQL printf options env jsonlPath file =
     (let command = defaultString (my_Command options) ''mysql''
      in case ce_lookpath env command of
        Some err \<Rightarrow> stopped [] (ContextPath ''mysql binary not found in PATH'' command (OsError err))
      | None \<Rightarrow>
     (let databaseName = defaultString (my_Database options) DefaultDatabaseName;
          tableName = defaultString (my_Table options) DefaultTableName
      in case ce_stdin_err env of
        Some err \<Rightarrow> stopped [] (Context ''open mysql stdin'' (OsError err))
      | None \<Rightarrow>
     (case ce_start_err env of
        Some err \<Rightarrow> stopped [] (Context ''start mysql CLI'' (OsError err))
      | None \<Rightarrow>
          run_child env [(command, mysql_args options, Some (mysql_env env options))]
            ''flush mysql input stream'' ''close mysql input stream'' ''mysql CLI execution failed''
            (script_body (mysql_preamble databaseName tableName) ''stream jsonl into mysql inserts''
               (mysql_insert printf tableName) ''commit mysql transaction'' jsonlPath file (child_stdin env)))))"

text \<open>\<^verbatim>\<open>os.WriteFile\<close> is an argument: it is given the path and the text and may fail. The result also says what
  was written.\<close>

definition ExportMySQLSchemaScript ::
  "(string \<Rightarrow> os_err option) \<Rightarrow> (string \<Rightarrow> bytes \<Rightarrow> os_err option) \<Rightarrow> string \<Rightarrow> string \<Rightarrow>
   bytes option \<times> export_err option" where
  "ExportMySQLSchemaScript mkdirAll writeFile outputPath databaseName =
     (case ensureParentDir mkdirAll outputPath of
        Some err \<Rightarrow> (None, Some (Context ''create parent directory for mysql schema output'' (OsError err)))
      | None \<Rightarrow>
        (let databaseName = defaultString databaseName DefaultDatabaseName;
             script = mysqlSchemaSQL databaseName DefaultTableName
         in case writeFile outputPath script of
              Some err \<Rightarrow> (Some script, Some (ContextPath ''write mysql schema script'' outputPath (OsError err)))
            | None \<Rightarrow> (Some script, None)))"

section \<open>Correctness\<close>

definition my_table :: "MySQLExportOptions \<Rightarrow> string" where
  "my_table options = defaultString (my_Table options) DefaultTableName"

definition my_database :: "MySQLExportOptions \<Rightarrow> string" where
  "my_database options = defaultString (my_Database options) DefaultDatabaseName"

definition mysql_started :: "MySQLExportOptions \<Rightarrow> cli_env \<Rightarrow> bool" where
  "mysql_started options env \<longleftrightarrow>
     ce_lookpath env (defaultString (my_Command options) ''mysql'') = None \<and>
     ce_stdin_err env = None \<and> ce_start_err env = None"

interpretation mysql: script_exporter "ExportJSONLToMySQL printf options" "mysql_started options"
  "mysql_preamble (my_database options) (my_table options)" "mysql_insert printf (my_table options)"
  for printf options
proof
  show "\<exists>cmds flushMsg closeMsg failMsg streamMsg commitMsg.
      ExportJSONLToMySQL printf options env path fl = run_child env cmds flushMsg closeMsg failMsg
        (script_body (mysql_preamble (my_database options) (my_table options)) streamMsg
           (mysql_insert printf (my_table options)) commitMsg path fl (child_stdin env))"
    if "mysql_started options env" for env path fl
    using that
    by (simp add: ExportJSONLToMySQL_def mysql_started_def my_table_def my_database_def Let_def) blast
next
  show "xr_err (ExportJSONLToMySQL printf options env path fl) \<noteq> None \<and>
      xr_sent (ExportJSONLToMySQL printf options env path fl) = [] \<and> \<not> xr_killed (ExportJSONLToMySQL printf options env path fl)"
    if "\<not> mysql_started options env" for env path fl
    using that by (auto simp: ExportJSONLToMySQL_def mysql_started_def stopped_def Let_def split: option.splits)
qed



lemma mysql_insert_verbs:
  "mysql_insert printf tableName record =
     Sprintf printf ((''INSERT INTO '' @ quoteMySQLIdentifier tableName) @ insert_verbs)
       [UintArg (rec_ProbeID record), UintArg (rec_TID record), StrArg (escapeMySQLString (rec_Addr record)),
        UintArg (rec_Seq record), BoolArg (rec_IsActive record), UintArg (rec_TS record)]"
  by (simp add: mysql_insert_def insert_verbs_def insert_columns_def Let_def)



section \<open>Properties\<close>






text \<open>The command line of the client: the password never appears among the arguments (which other users can
  see), only in the environment of the child; a socket replaces host and port; port 0 means 3306.\<close>

lemma mysql_command_line:
  "mysql_args (options\<lparr>my_Password := pw\<rparr>) = mysql_args options \<and>
   mysql_env env (options\<lparr>my_Password := pw\<rparr>) = ce_environ env @ (if pw = [] then [] else [''MYSQL_PWD='' @ pw]) \<and>
   mysql_args (options\<lparr>my_Socket := CHR ''/'' # s, my_Host := h, my_Port := p\<rparr>) =
     mysql_args (options\<lparr>my_Socket := CHR ''/'' # s\<rparr>) \<and>
   mysql_args (options\<lparr>my_Socket := [], my_Port := 0\<rparr>) = mysql_args (options\<lparr>my_Socket := [], my_Port := 3306\<rparr>)"
  by (simp add: mysql_args_def mysql_env_def Let_def)

text \<open>A table name with a newline breaks out of the comment at the end of the schema script: the comment line
  ends at the newline, and the rest of the name starts a line of its own, which the client executes as SQL.
  Quoting an identifier does not protect it inside a comment.\<close>

lemma mysql_comment_breaks:
  assumes "backquote \<notin> set evil"
  shows "\<exists>before after. mysqlSchemaSQL db (''t'' @ newline # evil) =
     before @ [newline] @ ''-- INTO TABLE '' @ [backquote] @ ''t'' @ [newline] @ evil @ [backquote, newline] @ after"
proof -
  have "CHR ''t'' \<in> set (TrimSpace (''t'' @ newline # evil))"
    by (rule TrimSpace_keeps) (simp_all add: go_spaces_def)
  then have "defaultString (''t'' @ newline # evil) DefaultTableName = ''t'' @ newline # evil"
    by (auto simp: defaultString_def)
  moreover have "quoteMySQLIdentifier (''t'' @ newline # evil) = [backquote] @ ''t'' @ [newline] @ evil @ [backquote]"
    using assms by (simp add: quoteMySQLIdentifier_def ReplaceAll_absent)
  ultimately show ?thesis
    unfolding mysqlSchemaSQL_def Let_def
    by (intro exI [of _ "mysql_schema_statements (quoteMySQLIdentifier db) (quoteMySQLIdentifier (''t'' @ newline # evil)) @
        ''-- Example CSV load. This matches ExportJSONLToDataFrameCSV output.'' @ [newline] @
        ''-- LOAD DATA LOCAL INFILE '' @ [squote] @ ''/path/to/trace.csv'' @ [squote]"] exI) simp
qed

lemma mysql_insert_shifted:
  assumes "CHR ''%'' \<notin> set a" "CHR ''%'' \<notin> set b" "backquote \<notin> set (a @ b)"
  shows "mysql_insert printf (a @ ''%d'' @ b) r =
     ''INSERT INTO '' @ [backquote] @ a @ FormatUint (rec_ProbeID r) @ b @ [backquote] @
     insert_columns @ FormatUint (rec_TID r) @ '', %!d(string='' @
     escapeMySQLString (rec_Addr r) @ ''), '' @ [squote] @ ''%!s(uint64='' @ FormatUint (rec_Seq r) @ '')'' @ [squote] @
     '', %!d(bool='' @ FormatBool (rec_IsActive r) @ ''), %!t(uint64='' @ FormatUint (rec_TS r) @ ''), %!d(MISSING));'' @
     [newline]" (is "_ = ?head @ [backquote] @ a @ ?id @ b @ [backquote] @ ?tail")
proof -
  let ?as = "[UintArg (rec_TID r), StrArg (escapeMySQLString (rec_Addr r)), UintArg (rec_Seq r),
    BoolArg (rec_IsActive r), UintArg (rec_TS r)]"
  have tail: "doPrintf insert_verbs ?as = Some ?tail" by (rule doPrintf_insert_verbs_shifted)
  have "doPrintf ((b @ [backquote]) @ insert_verbs) ?as = Some ((b @ [backquote]) @ ?tail)"
    using assms(2) by (subst doPrintf_text) (simp_all only: tail option.map, simp)
  then have "doPrintf (''%d'' @ (b @ [backquote]) @ insert_verbs) (UintArg (rec_ProbeID r) # ?as) =
      Some (?id @ (b @ [backquote]) @ ?tail)"
    by (simp add: print_arg_def)
  moreover have "CHR ''%'' \<notin> set (?head @ [backquote] @ a)" using assms(1) by simp
  ultimately have "Sprintf printf ((?head @ [backquote] @ a) @ ''%d'' @ (b @ [backquote]) @ insert_verbs)
      (UintArg (rec_ProbeID r) # ?as) = (?head @ [backquote] @ a) @ ?id @ (b @ [backquote]) @ ?tail"
    by (rule Sprintf_text [rotated])
  moreover have "quoteMySQLIdentifier (a @ ''%d'' @ b) = [backquote] @ a @ ''%d'' @ b @ [backquote]"
    using assms(3) by (simp add: quoteMySQLIdentifier_def ReplaceAll_absent)
  ultimately show ?thesis unfolding mysql_insert_verbs by (simp only: append_assoc)
qed

text \<open>A table name that is not blank is quoted into the statement that creates the table.\<close>

lemma mysql_creates_table:
  assumes "c \<in> set t" "c \<notin> set (concat go_spaces)"
  shows "\<exists>before after. mysqlSchemaSQL db t = before @ ''CREATE TABLE IF NOT EXISTS '' @ quoteMySQLIdentifier t @ after"
proof -
  have "c \<in> set (TrimSpace t)" using assms by (rule TrimSpace_keeps)
  then have "defaultString t DefaultTableName = t" by (auto simp: defaultString_def)
  then show ?thesis
    unfolding mysqlSchemaSQL_def mysql_schema_statements_def Let_def
    by (intro exI [of _ "''CREATE DATABASE IF NOT EXISTS '' @ quoteMySQLIdentifier db @ [newline] @
         ''  CHARACTER SET utf8mb4'' @ [newline] @ ''  COLLATE utf8mb4_unicode_ci;'' @ [newline] @ [newline] @
         ''USE '' @ quoteMySQLIdentifier db @ '';'' @ [newline] @ [newline]"] exI) (simp only: append_assoc)
qed

text \<open>C40: The table name is part of the format string of the inserts: for a table \<^verbatim>\<open>a%db\<close> the \<^verbatim>\<open>%d\<close> in the name takes the probe
  identifier, every value moves one column to the left and is printed with a verb of another type, and the last is
  missing. The schema script, where the name is an argument, creates the table under its real name.\<close>

theorem mysql_percent_table:
  assumes "CHR ''%'' \<notin> set a" "CHR ''%'' \<notin> set b" "backquote \<notin> set (a @ b)"
  shows "mysql_insert printf (a @ ''%d'' @ b) r =
     ''INSERT INTO '' @ [backquote] @ a @ FormatUint (rec_ProbeID r) @ b @ [backquote] @
     insert_columns @ FormatUint (rec_TID r) @ '', %!d(string='' @
     escapeMySQLString (rec_Addr r) @ ''), '' @ [squote] @ ''%!s(uint64='' @ FormatUint (rec_Seq r) @ '')'' @ [squote] @
     '', %!d(bool='' @ FormatBool (rec_IsActive r) @ ''), %!t(uint64='' @ FormatUint (rec_TS r) @ ''), %!d(MISSING));'' @
     [newline] \<and>
   (\<exists>before after. mysqlSchemaSQL db (a @ ''%d'' @ b) =
      before @ ''CREATE TABLE IF NOT EXISTS '' @ [backquote] @ a @ ''%d'' @ b @ [backquote] @ after)"
proof -
  have "CHR ''%'' \<in> set (a @ ''%d'' @ b)" "CHR ''%'' \<notin> set (concat go_spaces)" by (simp_all add: go_spaces_def)
  from mysql_creates_table [OF this, of db] assms(3)
  have "\<exists>before after. mysqlSchemaSQL db (a @ ''%d'' @ b) =
      before @ ''CREATE TABLE IF NOT EXISTS '' @ [backquote] @ a @ ''%d'' @ b @ [backquote] @ after"
    by (simp add: quoteMySQLIdentifier_def ReplaceAll_absent)
  with mysql_insert_shifted [OF assms] show ?thesis by simp
qed

theorem mysql_percent_table_witness:
  "CHR ''%'' \<notin> set ''run_'' \<and>
   (\<exists>t. mysql_insert demo_printf ''run_%d'' (event_record demo_event) = ''INSERT INTO '' @ [backquote] @ ''run_7'' @ [backquote] @ t)"
proof -
  have "FormatUint (rec_ProbeID (event_record demo_event)) = ''7''" by code_simp
  then show ?thesis using mysql_percent_table [of "''run_''" "[]" demo_printf "event_record demo_event"] by auto
qed

end
