(* ===== verification/Export_PostgreSQL.thy ===== *)
theory Export_PostgreSQL
  imports Export_Pipe
begin

text \<open>
  \<^verbatim>\<open>export/postgresql.go\<close>: the options, the schema script, the command line and environment of \<^verbatim>\<open>psql\<close>, the check for
  the database and its creation, the insert statement and the exporter, and the writer of the
  schema script.
\<close>

section \<open>The code\<close>

record PostgreSQLExportOptions =
  pg_Command :: string
  pg_Host :: string
  pg_Port :: int
  pg_User :: string
  pg_Password :: string
  pg_Database :: string
  pg_Table :: string
  pg_MaintenanceDB :: string
  pg_SSLMode :: string

definition postgreSQLCLIArgs :: "PostgreSQLExportOptions \<Rightarrow> string \<Rightarrow> string list" where
  "postgreSQLCLIArgs options databaseName =
     (let host = defaultString (pg_Host options) ''127.0.0.1'';
          port = pg_Port options;
          port = (if port = 0 then 5432 else port);
          args = [''-v'', ''ON_ERROR_STOP=1'', ''--host'', host, ''--port'', FormatInt port, ''--dbname'', databaseName]
      in if pg_User options \<noteq> [] then args @ [''--username'', pg_User options] else args)"

definition postgreSQLEnv :: "cli_env \<Rightarrow> PostgreSQLExportOptions \<Rightarrow> string list" where
  "postgreSQLEnv world options =
     (let env = ce_environ world;
          env = (if pg_Password options \<noteq> [] then env @ [''PGPASSWORD='' @ pg_Password options] else env)
      in if pg_SSLMode options \<noteq> [] then env @ [''PGSSLMODE='' @ pg_SSLMode options] else env)"

definition postgreSQLSchemaSQL :: "string \<Rightarrow> string \<Rightarrow> string" where
  "postgreSQLSchemaSQL databaseName tableName =
     (let db = quotePostgresIdentifier databaseName;
          table = quotePostgresIdentifier (defaultString tableName DefaultTableName)
      in ''-- Optional database creation step:'' @ [newline] @
         ''-- CREATE DATABASE '' @ db @ '';'' @ [newline] @
         ''-- Reconnect to the target database before running the statements below.'' @ [newline] @
         [newline] @
         ''CREATE TABLE IF NOT EXISTS public.'' @ table @ '' ('' @ [newline] @
         ''  id BIGSERIAL PRIMARY KEY,'' @ [newline] @
         ''  probe_id NUMERIC(20,0) NOT NULL,'' @ [newline] @
         ''  tid NUMERIC(20,0) NOT NULL,'' @ [newline] @
         ''  addr VARCHAR(18) NOT NULL,'' @ [newline] @
         ''  seq NUMERIC(20,0) NOT NULL,'' @ [newline] @
         ''  is_active BOOLEAN NOT NULL,'' @ [newline] @
         ''  ts NUMERIC(20,0) NOT NULL'' @ [newline] @
         '');'' @ [newline] @
         [newline] @
         ''CREATE INDEX IF NOT EXISTS idx_coro_trace_events_probe_seq'' @ [newline] @
         ''  ON public.'' @ table @ '' (probe_id, seq);'' @ [newline] @
         ''CREATE INDEX IF NOT EXISTS idx_coro_trace_events_tid_ts'' @ [newline] @
         ''  ON public.'' @ table @ '' (tid, ts);'' @ [newline] @
         ''CREATE INDEX IF NOT EXISTS idx_coro_trace_events_ts'' @ [newline] @
         ''  ON public.'' @ table @ '' (ts);'' @ [newline] @
         [newline] @
         ''-- Example CSV load. This matches ExportJSONLToDataFrameCSV output.'' @ [newline] @
         ''-- '' @ [backslash] @ ''copy public.'' @ table @ '' (probe_id, tid, addr, seq, is_active, ts)'' @ [newline] @
         ''--   FROM '' @ [squote] @ ''/path/to/trace.csv'' @ [squote] @ [newline] @
         ''--   WITH (FORMAT csv, HEADER true);'' @ [newline])"

text \<open>The error of a helper command, with its standard error when there is any.\<close>

definition cli_failure :: "os_err \<times> string \<Rightarrow> export_err" where
  "cli_failure failure =
     (case failure of (err, stderr) \<Rightarrow>
        if TrimSpace stderr = [] then OsError err else CliError err (TrimSpace stderr))"

definition check_database_sql :: "string \<Rightarrow> string" where
  "check_database_sql databaseName =
     ''SELECT 1 FROM pg_database WHERE datname = '' @ [squote] @ escapePostgresString databaseName @ [squote] @ '';''"

definition create_database_sql :: "string \<Rightarrow> string" where
  "create_database_sql databaseName = ''CREATE DATABASE '' @ quotePostgresIdentifier databaseName @ '';''"

text \<open>The commands run, and the error.\<close>

definition ensurePostgreSQLDatabaseExists ::
  "cli_env \<Rightarrow> string \<Rightarrow> PostgreSQLExportOptions \<Rightarrow> string \<Rightarrow> command_line list \<times> export_err option" where
  "ensurePostgreSQLDatabaseExists env command options databaseName =
     (let maintenanceDB = defaultString (pg_MaintenanceDB options) ''postgres'';
          checkArgs = postgreSQLCLIArgs options maintenanceDB @
            [''-tAc'', check_database_sql databaseName];
          checkCmd = (command, checkArgs, Some (postgreSQLEnv env options))
      in case ce_run env command checkArgs of
           (output, Some failure) \<Rightarrow> ([checkCmd], Some (Context ''check postgres database existence'' (cli_failure failure)))
         | (output, None) \<Rightarrow>
             (if TrimSpace output = ''1'' then ([checkCmd], None)
              else
                let createArgs = postgreSQLCLIArgs options maintenanceDB @
                      [''-c'', create_database_sql databaseName];
                    createCmd = (command, createArgs, Some (postgreSQLEnv env options))
                in case snd (ce_run env command createArgs) of
                     Some failure \<Rightarrow>
                       ([checkCmd, createCmd],
                        Some (ContextPath ''create postgres database'' databaseName (cli_failure failure)))
                   | None \<Rightarrow> ([checkCmd, createCmd], None)))"

text \<open>The format string contains the quoted table name. \<open>printf\<close> is the part of \<^verbatim>\<open>fmt.Fprintf\<close> beyond \<^verbatim>\<open>%d\<close>,
  \<^verbatim>\<open>%s\<close> and \<^verbatim>\<open>%t\<close>, which only a table name can reach.\<close>

definition postgres_insert :: "(string \<Rightarrow> fmt_arg list \<Rightarrow> string) \<Rightarrow> string \<Rightarrow> TraceRecord \<Rightarrow> bytes" where
  "postgres_insert printf tableName record =
     (let insertSQL = ''INSERT INTO public.'' @ quotePostgresIdentifier tableName @
            '' (probe_id, tid, addr, seq, is_active, ts) VALUES (%d, %d, '' @ [squote] @ ''%s'' @ [squote] @
            '', %d, %t, %d);'' @ [newline]
      in Sprintf printf insertSQL
           [UintArg (rec_ProbeID record), UintArg (rec_TID record), StrArg (escapePostgresString (rec_Addr record)),
            UintArg (rec_Seq record), BoolArg (rec_IsActive record), UintArg (rec_TS record)])"

definition postgres_preamble :: "string \<Rightarrow> string \<Rightarrow> (string \<times> bytes) list" where
  "postgres_preamble databaseName tableName =
     [(''write postgres encoding setup'', ''SET client_encoding = '' @ [squote] @ ''UTF8'' @ [squote] @ '';'' @ [newline]),
      (''write postgres string setup'', ''SET standard_conforming_strings = on;'' @ [newline]),
      (''write postgres schema setup'', postgreSQLSchemaSQL databaseName tableName),
      (''open postgres transaction'', ''BEGIN;'' @ [newline])]"

definition ExportJSONLToPostgreSQL ::
  "(string \<Rightarrow> fmt_arg list \<Rightarrow> string) \<Rightarrow> PostgreSQLExportOptions \<Rightarrow> cli_env \<Rightarrow> string \<Rightarrow> jsonl_file \<Rightarrow> export_run" where
  "ExportJSONLToPostgreSQL printf options env jsonlPath file =
     (let command = defaultString (pg_Command options) ''psql''
      in case ce_lookpath env command of
        Some err \<Rightarrow> stopped [] (ContextPath ''psql binary not found in PATH'' command (OsError err))
      | None \<Rightarrow>
     (let databaseName = defaultString (pg_Database options) DefaultDatabaseName;
          tableName = defaultString (pg_Table options) DefaultTableName
      in case ensurePostgreSQLDatabaseExists env command options databaseName of
        (cmds, Some err) \<Rightarrow> stopped cmds err
      | (cmds, None) \<Rightarrow>
     (case ce_stdin_err env of
        Some err \<Rightarrow> stopped cmds (Context ''open psql stdin'' (OsError err))
      | None \<Rightarrow>
     (case ce_start_err env of
        Some err \<Rightarrow> stopped cmds (Context ''start psql CLI'' (OsError err))
      | None \<Rightarrow>
          run_child env (cmds @ [(command, postgreSQLCLIArgs options databaseName, Some (postgreSQLEnv env options))])
            ''flush postgres input stream'' ''close postgres input stream'' ''psql CLI execution failed''
            (script_body (postgres_preamble databaseName tableName) ''stream jsonl into postgres inserts''
               (postgres_insert printf tableName) ''commit postgres transaction'' jsonlPath file (child_stdin env))))))"

definition ExportPostgreSQLSchemaScript ::
  "(string \<Rightarrow> os_err option) \<Rightarrow> (string \<Rightarrow> bytes \<Rightarrow> os_err option) \<Rightarrow> string \<Rightarrow> string \<Rightarrow>
   bytes option \<times> export_err option" where
  "ExportPostgreSQLSchemaScript mkdirAll writeFile outputPath databaseName =
     (case ensureParentDir mkdirAll outputPath of
        Some err \<Rightarrow> (None, Some (Context ''create parent directory for postgres schema output'' (OsError err)))
      | None \<Rightarrow>
        (let databaseName = defaultString databaseName DefaultDatabaseName;
             script = postgreSQLSchemaSQL databaseName DefaultTableName
         in case writeFile outputPath script of
              Some err \<Rightarrow> (Some script, Some (ContextPath ''write postgres schema script'' outputPath (OsError err)))
            | None \<Rightarrow> (Some script, None)))"

section \<open>Correctness\<close>

definition pg_table :: "PostgreSQLExportOptions \<Rightarrow> string" where
  "pg_table options = defaultString (pg_Table options) DefaultTableName"

definition pg_database :: "PostgreSQLExportOptions \<Rightarrow> string" where
  "pg_database options = defaultString (pg_Database options) DefaultDatabaseName"

definition pg_command :: "PostgreSQLExportOptions \<Rightarrow> string" where
  "pg_command options = defaultString (pg_Command options) ''psql''"

definition postgres_started :: "PostgreSQLExportOptions \<Rightarrow> cli_env \<Rightarrow> bool" where
  "postgres_started options env \<longleftrightarrow>
     ce_lookpath env (pg_command options) = None \<and>
     snd (ensurePostgreSQLDatabaseExists env (pg_command options) options (pg_database options)) = None \<and>
     ce_stdin_err env = None \<and> ce_start_err env = None"

lemmas postgres_names = pg_table_def pg_database_def pg_command_def

interpretation postgres: script_exporter "ExportJSONLToPostgreSQL printf options" "postgres_started options"
  "postgres_preamble (pg_database options) (pg_table options)" "postgres_insert printf (pg_table options)"
  for printf options
proof
  show "\<exists>cmds flushMsg closeMsg failMsg streamMsg commitMsg.
      ExportJSONLToPostgreSQL printf options env path fl = run_child env cmds flushMsg closeMsg failMsg
        (script_body (postgres_preamble (pg_database options) (pg_table options)) streamMsg
           (postgres_insert printf (pg_table options)) commitMsg path fl (child_stdin env))"
    if "postgres_started options env" for env path fl
  proof -
    let ?e = "ensurePostgreSQLDatabaseExists env (pg_command options) options (pg_database options)"
    have "snd ?e = None" using that by (simp only: postgres_started_def)
    then have "?e = (fst ?e, None)" by (simp add: prod_eq_iff)
    then obtain cmds where "?e = (cmds, None)" by blast
    with that show ?thesis
      by (simp add: ExportJSONLToPostgreSQL_def postgres_started_def postgres_names Let_def) blast
  qed
next
  show "xr_err (ExportJSONLToPostgreSQL printf options env path fl) \<noteq> None \<and>
      xr_sent (ExportJSONLToPostgreSQL printf options env path fl) = [] \<and>
      \<not> xr_killed (ExportJSONLToPostgreSQL printf options env path fl)"
    if "\<not> postgres_started options env" for env path fl
  proof -
    obtain cmds e where "ensurePostgreSQLDatabaseExists env (pg_command options) options (pg_database options) = (cmds, e)"
      by (cases "ensurePostgreSQLDatabaseExists env (pg_command options) options (pg_database options)")
    with that show ?thesis
      by (cases e; cases "ce_lookpath env (pg_command options)"; cases "ce_stdin_err env"; cases "ce_start_err env")
         (simp_all add: ExportJSONLToPostgreSQL_def postgres_started_def postgres_names stopped_def Let_def)
  qed
qed

definition postgres_head :: "string \<Rightarrow> string" where
  "postgres_head tableName = ''INSERT INTO public.'' @ quotePostgresIdentifier tableName @ insert_columns"

text \<open>The statement as it is meant: every verb filled with its argument.\<close>

definition postgres_statement :: "string \<Rightarrow> TraceRecord \<Rightarrow> bytes" where
  "postgres_statement tableName record =
     postgres_head tableName @ FormatUint (rec_ProbeID record) @ '', '' @ FormatUint (rec_TID record) @ '', '' @
     [squote] @ escapePostgresString (rec_Addr record) @ [squote] @ '', '' @ FormatUint (rec_Seq record) @ '', '' @
     FormatBool (rec_IsActive record) @ '', '' @ FormatUint (rec_TS record) @ '');'' @ [newline]"

lemma postgres_insert_verbs:
  "postgres_insert printf tableName record =
     Sprintf printf ((''INSERT INTO public.'' @ quotePostgresIdentifier tableName) @ insert_verbs)
       [UintArg (rec_ProbeID record), UintArg (rec_TID record), StrArg (escapePostgresString (rec_Addr record)),
        UintArg (rec_Seq record), BoolArg (rec_IsActive record), UintArg (rec_TS record)]"
  by (simp add: postgres_insert_def insert_verbs_def insert_columns_def Let_def)

text \<open>A table name without \<^verbatim>\<open>%\<close> gives the statement meant.\<close>

lemma postgres_insert_statement: "CHR ''%'' \<notin> set tableName \<Longrightarrow> postgres_insert printf tableName = postgres_statement tableName"
proof
  fix r
  assume "CHR ''%'' \<notin> set tableName"
  then have "CHR ''%'' \<notin> set (''INSERT INTO public.'' @ quotePostgresIdentifier tableName)" using quote_no_percent by simp
  from Sprintf_text [OF this doPrintf_insert_verbs]
  show "postgres_insert printf tableName r = postgres_statement tableName r"
    by (simp add: postgres_insert_verbs postgres_statement_def postgres_head_def)
qed

interpretation postgres_rows: insert_dialect escapePostgresString "read_doubled squote" "postgres_head tableName" "[]"
  FormatBool "[(''false'', False), (''true'', True)]" "\<lambda>_. True" "postgres_statement tableName"
  for tableName
proof
  show "read_flag [(''false'', False), (''true'', True)] (FormatBool b @ '','' @ s) = Some (b, '','' @ s)" for b s
    by (cases b) (simp_all add: read_flag_def FormatBool_def)
qed (simp_all add: postgres_statement_def postgres_head_def)

section \<open>Properties\<close>

abbreviation read_postgres_row :: "string \<Rightarrow> string \<Rightarrow> (TraceRecord \<times> string) option" where
  "read_postgres_row tableName \<equiv>
     read_row (postgres_head tableName) [] (read_doubled squote) [(''false'', False), (''true'', True)] (\<lambda>_. True)"

definition demo_postgres :: PostgreSQLExportOptions where
  "demo_postgres =
     \<lparr>pg_Command = [], pg_Host = [], pg_Port = 0, pg_User = [], pg_Password = ''pw'', pg_Database = ''o'' @ [squote] @ ''db'',
      pg_Table = [], pg_MaintenanceDB = [], pg_SSLMode = []\<rparr>"

lemma postgres_good_env: "postgres_started options (good_env n)"
proof -
  have "TrimSpace (''1'' @ [newline]) = ''1''" by code_simp
  then show ?thesis by (simp add: postgres_started_def ensurePostgreSQLDatabaseExists_def Let_def)
qed

text \<open>C22: \<^verbatim>\<open>ExportJSONLToPostgreSQL\<close>: on success \<^verbatim>\<open>psql\<close> was sent the preamble, then insert statements which PostgreSQL reads
  back as exactly the records of the file whatever the address texts are (for a table name without \<^verbatim>\<open>%\<close>), then one
  \<^verbatim>\<open>COMMIT\<close>. On an unreadable file it fails, a started client is killed, and no \<^verbatim>\<open>COMMIT\<close> was sent.\<close>

theorem postgres_export_correct:
  "(xr_err (ExportJSONLToPostgreSQL printf options env jsonlPath fl) = None \<and> CHR ''%'' \<notin> set (pg_table options) \<longrightarrow>
      file_ok jsonlPath fl \<and> \<not> xr_killed (ExportJSONLToPostgreSQL printf options env jsonlPath fl) \<and>
      (\<exists>rows. xr_sent (ExportJSONLToPostgreSQL printf options env jsonlPath fl) =
           concat (map snd (postgres_preamble (pg_database options) (pg_table options))) @ rows \<and>
         (\<forall>n \<ge> length (file_records jsonlPath fl).
            read_rows n (read_postgres_row (pg_table options)) rows = (file_records jsonlPath fl, commit_text)))) \<and>
   (\<not> file_ok jsonlPath fl \<longrightarrow>
      xr_err (ExportJSONLToPostgreSQL printf options env jsonlPath fl) \<noteq> None \<and>
      (postgres_started options env \<longrightarrow> xr_killed (ExportJSONLToPostgreSQL printf options env jsonlPath fl)) \<and>
      prefix (xr_sent (ExportJSONLToPostgreSQL printf options env jsonlPath fl))
        (concat (map snd (postgres_preamble (pg_database options) (pg_table options))) @
         concat (map (postgres_insert printf (pg_table options)) (file_records jsonlPath fl))))"
proof -
  have "take 6 commit_text \<noteq> ''INSERT''" by (simp add: commit_text_def)
  then show ?thesis
    using postgres.success [of printf options env jsonlPath fl] postgres.bad_input [of jsonlPath fl printf options env]
      postgres_rows.read_rows_inserts postgres_insert_statement
    by (simp add: postgres.script_def list_all_iff)
qed

theorem postgres_export_correct_witness:
  "(\<exists>room rows. xr_err (ExportJSONLToPostgreSQL demo_printf demo_postgres (good_env room) ''t.jsonl'' (log_file [demo_event])) = None \<and>
      xr_sent (ExportJSONLToPostgreSQL demo_printf demo_postgres (good_env room) ''t.jsonl'' (log_file [demo_event])) =
        concat (map snd (postgres_preamble (pg_database demo_postgres) (pg_table demo_postgres))) @ rows \<and>
      read_rows 1 (read_postgres_row (pg_table demo_postgres)) rows = ([event_record demo_event], commit_text)) \<and>
   xr_killed (ExportJSONLToPostgreSQL demo_printf demo_postgres (good_env 10000) ''t.jsonl'' broken_file)"
proof -
  let ?n = "length (postgres.script demo_postgres demo_printf (file_records ''t.jsonl'' (log_file [demo_event])))"
  have ok: "xr_err (ExportJSONLToPostgreSQL demo_printf demo_postgres (good_env ?n) ''t.jsonl'' (log_file [demo_event])) = None"
    by (rule postgres.complete) (simp_all add: postgres_good_env log_file_ok)
  have "CHR ''%'' \<notin> set (pg_table demo_postgres)" by code_simp
  moreover have "length (file_records ''t.jsonl'' (log_file [demo_event])) \<le> 1"
    "file_records ''t.jsonl'' (log_file [demo_event]) = [event_record demo_event]" by (simp_all add: log_file_ok)
  moreover have "xr_killed (ExportJSONLToPostgreSQL demo_printf demo_postgres (good_env 10000) ''t.jsonl'' broken_file)"
    using postgres_export_correct [of demo_printf demo_postgres "good_env 10000" "''t.jsonl''" broken_file] broken_file_records(2)
      postgres_good_env by blast
  ultimately show ?thesis
    using postgres_export_correct [of demo_printf demo_postgres "good_env ?n" "''t.jsonl''" "log_file [demo_event]"] ok by metis
qed

text \<open>The database a helper command asks for or creates, as the server reads it from the last argument.\<close>

definition option_value :: "string \<Rightarrow> string list \<Rightarrow> string option" where
  "option_value flag args = (case rev args of v # name # _ \<Rightarrow> if name = flag then Some v else None | _ \<Rightarrow> None)"

definition asked_database :: "string list \<Rightarrow> string option" where
  "asked_database args = do {
     sql \<leftarrow> option_value ''-tAc'' args;
     s \<leftarrow> expect (''SELECT 1 FROM pg_database WHERE datname = '' @ [squote]) sql;
     (name, rest) \<leftarrow> read_doubled squote s;
     if rest = '';'' then Some name else None
   }"

definition created_database :: "string list \<Rightarrow> string option" where
  "created_database args = do {
     sql \<leftarrow> option_value ''-c'' args;
     s \<leftarrow> expect (''CREATE DATABASE '' @ [dquote]) sql;
     (name, rest) \<leftarrow> read_doubled dquote s;
     if rest = '';'' then Some name else None
   }"

text \<open>A server with the databases \<open>dbs\<close> behind \<^verbatim>\<open>psql\<close>: a check prints 1 when the database it reads is there; either command may fail.\<close>

definition psql_answers ::
  "string list \<Rightarrow> (os_err \<times> string) option \<Rightarrow> (os_err \<times> string) option \<Rightarrow> string list \<Rightarrow> string \<times> (os_err \<times> string) option" where
  "psql_answers dbs checkErr createErr args =
     (case asked_database args of
        Some name \<Rightarrow> (if name \<in> set dbs then ''1'' @ [newline] else [], checkErr)
      | None \<Rightarrow> (''CREATE DATABASE'' @ [newline], createErr))"

lemma asked_check [simp]: "asked_database (args @ [''-tAc'', check_database_sql db]) = Some db"
  using pg_lit.read_escape [of "'';''" db]
    expect_append [of "''SELECT 1 FROM pg_database WHERE datname = '' @ [squote]" "escapePostgresString db @ [squote] @ '';''"]
  by (simp add: asked_database_def option_value_def check_database_sql_def)

lemma created_create [simp]: "created_database (args @ [''-c'', create_database_sql db]) = Some db"
  using read_doubled_escape [of "'';''" dquote db]
    expect_append [of "''CREATE DATABASE '' @ [dquote]" "ReplaceAll db [dquote] [dquote, dquote] @ [dquote] @ '';''"]
  by (simp add: created_database_def option_value_def create_database_sql_def quotePostgresIdentifier_def)

lemma helper_others [simp]:
  "asked_database (args @ [''-c'', sql]) = None" "created_database (args @ [''-tAc'', sql]) = None"
  "asked_database (postgreSQLCLIArgs options db) = None" "created_database (postgreSQLCLIArgs options db) = None"
  by (simp_all add: asked_database_def created_database_def option_value_def postgreSQLCLIArgs_def Let_def)

lemma psql_prepares:
  assumes "ce_run env command = psql_answers dbs checkErr createErr"
  shows "ensurePostgreSQLDatabaseExists env command options db =
    (let args = postgreSQLCLIArgs options (defaultString (pg_MaintenanceDB options) ''postgres'');
         cmd = (\<lambda>last. (command, args @ last, Some (postgreSQLEnv env options)));
         check = cmd [''-tAc'', check_database_sql db]; create = cmd [''-c'', create_database_sql db]
     in case checkErr of
          Some failure \<Rightarrow> ([check], Some (Context ''check postgres database existence'' (cli_failure failure)))
        | None \<Rightarrow> if db \<in> set dbs then ([check], None)
            else ([check, create],
              map_option (\<lambda>failure. ContextPath ''create postgres database'' db (cli_failure failure)) createErr))"
proof -
  have trim: "TrimSpace (''1'' @ [newline]) = ''1''" "TrimSpace [] \<noteq> ''1''" by code_simp+
  show ?thesis
    using trim by (auto simp: ensurePostgreSQLDatabaseExists_def assms psql_answers_def Let_def split: option.splits)
qed

text \<open>C38: Preparing the database, with a server that has the databases \<open>dbs\<close>. \<^verbatim>\<open>ExportJSONLToPostgreSQL\<close> asks it once for the
  database, and the name the server reads is the name configured, whatever characters it has. If the check fails, that
  failure is the result; if it finds the database nothing is created; otherwise exactly one \<^verbatim>\<open>CREATE DATABASE\<close> runs, for that name,
  and if it fails its failure is the result. After either failure no client is started and nothing is sent. Otherwise
  the database is there, old or new, and the client is started on it unless its start fails.\<close>

theorem postgres_database_prepared:
  assumes "ce_lookpath env (pg_command options) = None"
    "ce_run env (pg_command options) = psql_answers dbs checkErr createErr"
  shows "let run = ExportJSONLToPostgreSQL printf options env jsonlPath fl; db = pg_database options;
             args = map (\<lambda>(_, args, _). args) (xr_cmds run)
    in List.map_filter asked_database args = [db] \<and>
       List.map_filter created_database args = (if checkErr = None \<and> db \<notin> set dbs then [db] else []) \<and>
       (\<forall>failure. checkErr = Some failure \<longrightarrow> length args = 1 \<and> xr_sent run = [] \<and>
          xr_err run = Some (Context ''check postgres database existence'' (cli_failure failure))) \<and>
       (\<forall>failure. checkErr = None \<and> db \<notin> set dbs \<and> createErr = Some failure \<longrightarrow> length args = 2 \<and> xr_sent run = [] \<and>
          xr_err run = Some (ContextPath ''create postgres database'' db (cli_failure failure))) \<and>
       (checkErr = None \<and> (db \<in> set dbs \<or> createErr = None) \<and> ce_stdin_err env = None \<and> ce_start_err env = None \<longrightarrow>
          last args = postgreSQLCLIArgs options db \<and> postgres_started options env)"
  unfolding Let_def ExportJSONLToPostgreSQL_def postgres_started_def pg_database_def [symmetric]
    pg_command_def [symmetric] assms(1) psql_prepares [OF assms(2)]
  by (cases checkErr; cases createErr; cases "ce_stdin_err env"; cases "ce_start_err env")
     (simp_all add: map_filter_simps stopped_def)

theorem postgres_database_prepared_witness:
  "let env = (good_env 5)\<lparr>ce_run := \<lambda>_. psql_answers [''postgres''] None (Some (''exit status 1'', ''denied''))\<rparr>;
       run = ExportJSONLToPostgreSQL demo_printf demo_postgres env ''t.jsonl'' (log_file [demo_event])
   in xr_sent run = [] \<and> List.map_filter created_database (map (\<lambda>(_, args, _). args) (xr_cmds run)) = [''o'' @ [squote] @ ''db''] \<and>
      xr_err run = Some (ContextPath ''create postgres database'' (''o'' @ [squote] @ ''db'') (CliError ''exit status 1'' ''denied''))"
proof -
  let ?env = "(good_env 5)\<lparr>ce_run := \<lambda>_. psql_answers [''postgres''] None (Some (''exit status 1'', ''denied''))\<rparr>"
  have "pg_database demo_postgres = ''o'' @ [squote] @ ''db''" "TrimSpace ''denied'' = ''denied''" by code_simp+
  then show ?thesis
    using postgres_database_prepared [of ?env demo_postgres "[''postgres'']" None "Some (''exit status 1'', ''denied'')"
        demo_printf "''t.jsonl''" "log_file [demo_event]"]
    by (simp add: Let_def cli_failure_def)
qed

end
