(* ===== verification/Export_CSV.thy ===== *)
theory Export_CSV
  imports Export_Pipe
begin

text \<open>
  \<^verbatim>\<open>export/dataframe.go\<close>: the CSV exporter over the writer of \<^verbatim>\<open>encoding/csv\<close>, with a reader of RFC 4180 as the
  reference: what the file holds after an export reads back as the header and the records.
\<close>

section \<open>The writer of \<^verbatim>\<open>encoding/csv\<close>\<close>

definition csv_special :: "char \<Rightarrow> bool" where
  "csv_special c \<longleftrightarrow> c = newline \<or> c = CHR 0x0D \<or> c = dquote \<or> c = CHR '',''"

definition fieldNeedsQuotes :: "string \<Rightarrow> bool" where
  "fieldNeedsQuotes field =
     (if field = [] then False
      else if field = [backslash, CHR ''.''] then True
      else if list_ex csv_special field then True
      else \<not> no_space_start go_spaces field)"

text \<open>The pieces a quoted field is written in: runs of ordinary bytes, a doubled quote, one carriage return or
  newline.\<close>

fun quoted_chunks :: "string \<Rightarrow> bytes \<Rightarrow> bytes list" where
  "quoted_chunks [] run = (if run = [] then [] else [run])"
| "quoted_chunks (c # cs) run =
     (if c = dquote then run # [dquote, dquote] # quoted_chunks cs []
      else if c = CHR 0x0D \<or> c = newline then run # [c] # quoted_chunks cs []
      else quoted_chunks cs (run @ [c]))"

definition field_chunks :: "string \<Rightarrow> bytes list" where
  "field_chunks field =
     (if fieldNeedsQuotes field then [[dquote]] @ quoted_chunks field [] @ [[dquote]] else [field])"

fun record_chunks :: "string list \<Rightarrow> bytes list" where
  "record_chunks [] = [[newline]]"
| "record_chunks [field] = field_chunks field @ [[newline]]"
| "record_chunks (field # cols) = field_chunks field @ [[CHR '','']] @ record_chunks cols"

text \<open>Writes to the buffer one after the other, stopping at the first error.\<close>

fun write_chunks :: "bytes list \<Rightarrow> os_file bufio \<Rightarrow> os_file bufio \<times> export_err option" where
  "write_chunks [] w = (w, None)"
| "write_chunks (p # ps) w =
     (case bw_write os_write w p of
        (w', e) \<Rightarrow> if e then (w', Some WriteError) else write_chunks ps w')"

definition csv_Write :: "string list \<Rightarrow> os_file bufio \<Rightarrow> os_file bufio \<times> export_err option" where
  "csv_Write cols w = write_chunks (record_chunks cols) w"

section \<open>The exporter\<close>

definition csv_header :: "string list" where
  "csv_header = [''probe_id'', ''tid'', ''addr'', ''seq'', ''is_active'', ''ts'']"

definition record_fields :: "TraceRecord \<Rightarrow> string list" where
  "record_fields record =
     [FormatUint (rec_ProbeID record), FormatUint (rec_TID record), rec_Addr record, FormatUint (rec_Seq record),
      FormatBool (rec_IsActive record), FormatUint (rec_TS record)]"

record csv_run =
  cr_err :: "export_err option"
  cr_file :: "bytes option"

text \<open>\<open>create\<close> is the outcome of \<^verbatim>\<open>os.Create\<close>: an error or the empty file. On an error of the stream the
  writer is not flushed.\<close>

definition ExportJSONLToDataFrameCSV ::
  "(string \<Rightarrow> os_err option) \<Rightarrow> (string \<Rightarrow> os_err + os_file) \<Rightarrow> string \<Rightarrow> jsonl_file \<Rightarrow> string \<Rightarrow> csv_run" where
  "ExportJSONLToDataFrameCSV mkdirAll create jsonlPath file csvPath =
     (case ensureParentDir mkdirAll csvPath of
        Some err \<Rightarrow>
          \<lparr>cr_err = Some (Context ''create parent directory for csv output'' (OsError err)), cr_file = None\<rparr>
      | None \<Rightarrow>
     (case create csvPath of
        Inl err \<Rightarrow> \<lparr>cr_err = Some (ContextPath ''create csv output'' csvPath (OsError err)), cr_file = None\<rparr>
      | Inr f \<Rightarrow>
     (case in_context ''write csv header'' (csv_Write csv_header (NewWriterSize f 4096)) of
        (w, Some err) \<Rightarrow> \<lparr>cr_err = Some err, cr_file = Some (file_bytes (bw_sink w))\<rparr>
      | (w, None) \<Rightarrow>
     (case StreamJSONL jsonlPath file (\<lambda>record. csv_Write (record_fields record)) w of
        (w, Some err) \<Rightarrow> \<lparr>cr_err = Some err, cr_file = Some (file_bytes (bw_sink w))\<rparr>
      | (w, None) \<Rightarrow>
     (case bw_flush os_write w of
        (w, e) \<Rightarrow>
          \<lparr>cr_err = (if e then Some (ContextPath ''flush csv output'' csvPath WriteError) else None),
           cr_file = Some (file_bytes (bw_sink w))\<rparr>)))))"

section \<open>The text of a row\<close>

definition csv_field :: "string \<Rightarrow> string" where
  "csv_field field =
     (if fieldNeedsQuotes field then [dquote] @ ReplaceAll field [dquote] [dquote, dquote] @ [dquote] else field)"

fun csv_line :: "string list \<Rightarrow> string" where
  "csv_line [] = [newline]"
| "csv_line [field] = csv_field field @ [newline]"
| "csv_line (field # cols) = csv_field field @ '','' @ csv_line cols"

lemma quoted_chunks_concat: "concat (quoted_chunks field run) = run @ ReplaceAll field [dquote] [dquote, dquote]"
  by (induction field run rule: quoted_chunks.induct) (auto simp: ReplaceAll_char)

lemma record_chunks_concat: "concat (record_chunks cols) = csv_line cols"
  by (induction cols rule: record_chunks.induct) (auto simp: field_chunks_def csv_field_def quoted_chunks_concat)

lemma write_chunks_ok: "write_chunks ps w = (w', None) \<Longrightarrow> osf.stream w' = osf.stream w @ concat ps"
  by (induction ps arbitrary: w) (fastforce split: prod.splits if_splits dest: osf.write_stream)+

lemma write_chunks_prefix:
  "write_chunks ps w = (w', err) \<Longrightarrow> prefix (file_bytes (bw_sink w')) (osf.stream w @ concat ps)"
proof (induction ps arbitrary: w)
  case Nil
  then show ?case by (simp add: osf.stream_def)
next
  case (Cons p ps)
  obtain w1 e where w1: "bw_write os_write w p = (w1, e)" by (cases "bw_write os_write w p")
  show ?case
  proof (cases e)
    case True
    with Cons.prems w1 osf.write_prefix [OF w1] show ?thesis by (auto intro: prefix_order.trans)
  next
    case False
    with Cons w1 osf.write_stream [of w p w1] show ?thesis by fastforce
  qed
qed

lemma write_chunks_fits:
  "osf.fits w (length (concat ps) + k) \<Longrightarrow> \<exists>w'. write_chunks ps w = (w', None) \<and> osf.fits w' k"
proof (induction ps arbitrary: w)
  case (Cons p ps)
  have "osf.fits w (length p + (length (concat ps) + k))" using Cons.prems by (simp add: add.assoc)
  from osf.write_fits [OF this] Cons.IH show ?case
    by (cases "bw_write os_write w p") auto
qed simp

interpretation csv_rows: record_writer "\<lambda>record. csv_Write (record_fields record)"
  "\<lambda>rs w. osf.stream w = base @ concat (map (\<lambda>r. csv_line (record_fields r)) rs)"
  "\<lambda>rs w. prefix (file_bytes (bw_sink w)) (base @ concat (map (\<lambda>r. csv_line (record_fields r)) rs))" for base
proof
  show "prefix (file_bytes (bw_sink w)) (base @ concat (map (\<lambda>r. csv_line (record_fields r)) rs))"
    if "osf.stream w = base @ concat (map (\<lambda>r. csv_line (record_fields r)) rs)" for rs w
    by (simp add: that [symmetric] osf.stream_def)
next
  show "osf.stream w' = base @ concat (map (\<lambda>r. csv_line (record_fields r)) (rs @ [r]))"
    if "osf.stream w = base @ concat (map (\<lambda>r. csv_line (record_fields r)) rs)"
      "csv_Write (record_fields r) w = (w', None)" for rs w r w'
    using write_chunks_ok that by (simp add: csv_Write_def record_chunks_concat)
next
  show "prefix (file_bytes (bw_sink w')) (base @ concat (map (\<lambda>r. csv_line (record_fields r)) (rs @ [r])))"
    if "osf.stream w = base @ concat (map (\<lambda>r. csv_line (record_fields r)) rs)"
      "csv_Write (record_fields r) w = (w', Some e)" for rs w r w' e
    using write_chunks_prefix that by (fastforce simp: csv_Write_def record_chunks_concat)
qed

section \<open>Reading CSV\<close>

text \<open>One field by RFC 4180, and a line of at most \<open>n\<close> cols.\<close>

definition read_field :: "string \<Rightarrow> (string \<times> string) option" where
  "read_field s =
     (if take 1 s = [dquote] then read_doubled dquote (drop 1 s)
      else let bare = (\<lambda>c. c \<noteq> CHR '','' \<and> c \<noteq> newline) in Some (takeWhile bare s, dropWhile bare s))"

fun read_line :: "nat \<Rightarrow> string \<Rightarrow> (string list \<times> string) option" where
  "read_line 0 s = None"
| "read_line (Suc n) s =
     (case read_field s of
        None \<Rightarrow> None
      | Some (field, r) \<Rightarrow>
          if take 1 r = [newline] then Some ([field], drop 1 r)
          else if take 1 r = '','' then map_option (\<lambda>(fs, r). (field # fs, r)) (read_line n (drop 1 r))
          else None)"

text \<open>All lines of a text, at most \<open>n\<close> of them, each of at most \<open>n\<close> cols.\<close>

fun read_table :: "nat \<Rightarrow> string \<Rightarrow> string list list option" where
  "read_table 0 s = (if s = [] then Some [] else None)"
| "read_table (Suc n) s =
     (if s = [] then Some []
      else case read_line 6 s of
        None \<Rightarrow> None
      | Some (line, r) \<Rightarrow> map_option (Cons line) (read_table n r))"

interpretation csv_lit: quoted_text dquote "\<lambda>v. ReplaceAll v [dquote] [dquote, dquote]" "read_doubled dquote"
  by unfold_locales (rule read_doubled_escape)

lemma read_field_csv:
  assumes "c = CHR '','' \<or> c = newline"
  shows "read_field (csv_field field @ c # r) = Some (field, c # r)"
proof (cases "fieldNeedsQuotes field")
  case True
  then show ?thesis
    using csv_lit.read_escape [of "c # r" field] assms by (auto simp: csv_field_def read_field_def)
next
  case False
  then have plain: "\<forall>x \<in> set field. \<not> csv_special x"
    by (auto simp: fieldNeedsQuotes_def list_ex_iff split: if_splits)
  then have "take 1 (field @ c # r) \<noteq> [dquote]" using assms by (cases field) (auto simp: csv_special_def)
  moreover have "\<forall>x \<in> set field. x \<noteq> CHR '','' \<and> x \<noteq> newline" using plain by (auto simp: csv_special_def)
  ultimately show ?thesis
    using False assms by (auto simp: csv_field_def read_field_def Let_def)
qed

lemma read_line_csv: "cols \<noteq> [] \<Longrightarrow> length cols \<le> n \<Longrightarrow> read_line n (csv_line cols @ r) = Some (cols, r)"
proof (induction cols arbitrary: n rule: csv_line.induct)
  case (2 field)
  then obtain m where "n = Suc m" by (cases n) auto
  then show ?case using read_field_csv [of newline field r] by simp
next
  case (3 field f fs)
  then obtain m where "n = Suc m" by (cases n) auto
  with 3 read_field_csv [of "CHR '',''" field "csv_line (f # fs) @ r"] show ?case by simp
qed simp

lemma csv_line_nonempty: "csv_line cols \<noteq> []"
  by (cases cols rule: csv_line.cases) auto

lemma read_table_csv:
  "\<forall>cols \<in> set rows. cols \<noteq> [] \<and> length cols \<le> 6 \<Longrightarrow> length rows \<le> n \<Longrightarrow>
   read_table n (concat (map csv_line rows)) = Some rows"
proof (induction rows arbitrary: n)
  case Nil
  then show ?case by (cases n) simp_all
next
  case (Cons cols rows)
  then obtain m where "n = Suc m" by (cases n) auto
  with Cons csv_line_nonempty [of cols] read_line_csv [of cols 6] show ?case by simp
qed

text \<open>The record of a line.\<close>

definition fields_record :: "string list \<Rightarrow> TraceRecord option" where
  "fields_record cols =
     (case cols of
        [p, t, a, s, b, ts] \<Rightarrow>
          (case (parse_uint p, parse_uint t, parse_uint s, parse_uint ts) of
             (Some p, Some t, Some s, Some ts) \<Rightarrow>
               if b = ''true'' \<or> b = ''false'' then
                 Some \<lparr>rec_ProbeID = p, rec_TID = t, rec_Addr = a, rec_Seq = s, rec_IsActive = (b = ''true''),
                       rec_TS = ts\<rparr>
               else None
           | _ \<Rightarrow> None)
      | _ \<Rightarrow> None)"

lemma fields_record_fields: "fields_record (record_fields r) = Some r"
  by (cases "rec_IsActive r") (simp_all add: fields_record_def record_fields_def FormatBool_def)

section \<open>Properties\<close>

lemma csv_export_ok:
  assumes "cr_err (ExportJSONLToDataFrameCSV mkdirAll create jsonlPath fl csvPath) = None" "create csvPath = Inr f"
  shows "file_ok jsonlPath fl \<and> cr_file (ExportJSONLToDataFrameCSV mkdirAll create jsonlPath fl csvPath) =
     Some (file_bytes f @ concat (map csv_line (csv_header # map record_fields (file_records jsonlPath fl))))"
proof -
  let ?w = "NewWriterSize f 4096"
  obtain w1 e1 where w1: "csv_Write csv_header ?w = (w1, e1)" by (cases "csv_Write csv_header ?w")
  obtain w2 e2 where w2: "StreamJSONL jsonlPath fl (\<lambda>record. csv_Write (record_fields record)) w1 = (w2, e2)"
    by (cases "StreamJSONL jsonlPath fl (\<lambda>record. csv_Write (record_fields record)) w1")
  obtain w3 e3 where w3: "bw_flush os_write w2 = (w3, e3)" by (cases "bw_flush os_write w2")
  have ok: "ensureParentDir mkdirAll csvPath = None" "e1 = None" "e2 = None" "\<not> e3"
    using assms w1 w2 w3
    by (auto simp: ExportJSONLToDataFrameCSV_def in_context_def split: option.splits if_splits)
  have "osf.stream w1 = file_bytes f @ csv_line csv_header"
    using w1 ok(2) write_chunks_ok [of "record_chunks csv_header" ?w w1]
    by (simp add: csv_Write_def record_chunks_concat osf.stream_def NewWriterSize_def)
  then have "file_ok jsonlPath fl" "osf.stream w2 = (file_bytes f @ csv_line csv_header) @
      concat (map (\<lambda>r. csv_line (record_fields r)) (file_records jsonlPath fl))"
    using csv_rows.StreamJSONL_tried [OF _ w2, of "file_bytes f @ csv_line csv_header"] ok(3) by simp_all
  moreover have "file_bytes (bw_sink w3) = osf.stream w2" using osf.flush_delivers w3 ok(4) by auto
  ultimately show ?thesis
    using assms(2) ok w1 w2 w3 by (simp add: ExportJSONLToDataFrameCSV_def in_context_def comp_def)
qed

interpretation csv_fits: roomy_writer "\<lambda>record. csv_Write (record_fields record)"
  "\<lambda>record. csv_line (record_fields record)" osf.fits
  by unfold_locales (simp add: csv_Write_def write_chunks_fits record_chunks_concat)

definition csv_text :: "TraceRecord list \<Rightarrow> bytes" where
  "csv_text rs = concat (map csv_line (csv_header # map record_fields rs))"

lemma csv_export_fits:
  assumes "file_ok jsonlPath fl" "ensureParentDir mkdirAll csvPath = None"
    "create csvPath = Inr \<lparr>file_bytes = [], file_room = room, file_open = True\<rparr>"
    "length (csv_text (file_records jsonlPath fl)) \<le> room"
  shows "cr_err (ExportJSONLToDataFrameCSV mkdirAll create jsonlPath fl csvPath) = None"
proof -
  let ?rows = "concat (map (\<lambda>r. csv_line (record_fields r)) (file_records jsonlPath fl))"
  let ?w = "NewWriterSize \<lparr>file_bytes = [], file_room = room, file_open = True\<rparr> 4096"
  have "osf.fits ?w (length (csv_line csv_header) + (length ?rows + 0))"
    using assms(4) by (simp add: osf.fits_def NewWriterSize_def os_room_def csv_text_def comp_def)
  then obtain w1 where w1: "csv_Write csv_header ?w = (w1, None)" "osf.fits w1 (length ?rows + 0)"
    using write_chunks_fits [of ?w "record_chunks csv_header"] unfolding csv_Write_def record_chunks_concat by blast
  obtain w2 where w2: "StreamJSONL jsonlPath fl (\<lambda>record. csv_Write (record_fields record)) w1 = (w2, None)" "osf.fits w2 0"
    using csv_fits.StreamJSONL_fits [OF assms(1) w1(2)] by blast
  from osf.flush_fits [OF w2(2)] w1(1) w2(1) assms(2,3) show ?thesis
    by (simp add: ExportJSONLToDataFrameCSV_def in_context_def case_prod_unfold)
qed

text \<open>Whatever happens, the file holds a prefix of the table.\<close>

lemma csv_export_prefix:
  assumes "create csvPath = Inr f" "cr_file (ExportJSONLToDataFrameCSV mkdirAll create jsonlPath fl csvPath) = Some content"
  shows "prefix content (file_bytes f @ csv_text (file_records jsonlPath fl))"
proof -
  let ?w = "NewWriterSize f 4096" and ?base = "file_bytes f @ csv_line csv_header"
  let ?rows = "\<lambda>rs. concat (map (\<lambda>r. csv_line (record_fields r)) rs)"
  obtain w1 e1 where w1: "csv_Write csv_header ?w = (w1, e1)" by (cases "csv_Write csv_header ?w")
  obtain w2 e2 where w2: "StreamJSONL jsonlPath fl (\<lambda>record. csv_Write (record_fields record)) w1 = (w2, e2)"
    by (cases "StreamJSONL jsonlPath fl (\<lambda>record. csv_Write (record_fields record)) w1")
  obtain w3 e3 where w3: "bw_flush os_write w2 = (w3, e3)" by (cases "bw_flush os_write w2")
  have empty: "osf.stream ?w = file_bytes f" by (simp add: osf.stream_def NewWriterSize_def)
  have all: "file_bytes f @ csv_text rs = ?base @ ?rows rs" for rs by (simp add: csv_text_def comp_def)
  show ?thesis
  proof (cases e1)
    case (Some e)
    with assms w1 have "content = file_bytes (bw_sink w1)"
      by (auto simp: ExportJSONLToDataFrameCSV_def in_context_def split: option.splits)
    moreover have "prefix (file_bytes (bw_sink w1)) ?base"
      using write_chunks_prefix [of "record_chunks csv_header" ?w w1] w1 empty by (simp add: csv_Write_def record_chunks_concat)
    ultimately show ?thesis unfolding all by (meson prefixI prefix_order.trans)
  next
    case None
    then have base: "osf.stream w1 = ?base"
      using w1 write_chunks_ok [of "record_chunks csv_header" ?w w1] empty by (simp add: csv_Write_def record_chunks_concat)
    have tried: "(\<exists>us. prefix us (file_records jsonlPath fl) \<and> prefix (file_bytes (bw_sink w2)) (?base @ ?rows us)) \<and>
        (e2 = None \<longrightarrow> osf.stream w2 = ?base @ ?rows (file_records jsonlPath fl))"
      using csv_rows.StreamJSONL_tried [OF _ w2, of ?base] base by simp
    show ?thesis
    proof (cases e2)
      case (Some e)
      with assms w1 w2 None have "content = file_bytes (bw_sink w2)"
        by (auto simp: ExportJSONLToDataFrameCSV_def in_context_def split: option.splits)
      moreover from tried obtain us zs where "file_records jsonlPath fl = us @ zs"
          "prefix (file_bytes (bw_sink w2)) (?base @ ?rows us)" by (auto simp: prefix_def)
      ultimately show ?thesis unfolding all using prefix_order.trans [OF _ prefixI [OF refl]] by fastforce
    next
      case none2: None
      with assms w1 w2 w3 None have "content = file_bytes (bw_sink w3)"
        by (auto simp: ExportJSONLToDataFrameCSV_def in_context_def split: option.splits)
      then show ?thesis using tried none2 osf.flush_prefix [OF w3] unfolding all by simp
    qed
  qed
qed

text \<open>C23: When \<^verbatim>\<open>ExportJSONLToDataFrameCSV\<close> returns no error, the new file reads back, by the rules of RFC 4180, as the
  header line and one line of six fields per record of the trace, in order, and each line gives its record
  back, whatever the address text contains (quotes, commas, newlines).\<close>

theorem csv_export_reads_back:
  assumes "cr_err (ExportJSONLToDataFrameCSV mkdirAll create jsonlPath fl csvPath) = None"
    "create csvPath = Inr \<lparr>file_bytes = [], file_room = room, file_open = True\<rparr>"
  shows "\<exists>content. cr_file (ExportJSONLToDataFrameCSV mkdirAll create jsonlPath fl csvPath) = Some content \<and>
     (\<forall>n > length (file_records jsonlPath fl).
        read_table n content = Some (csv_header # map record_fields (file_records jsonlPath fl))) \<and>
     map fields_record (map record_fields (file_records jsonlPath fl)) = map Some (file_records jsonlPath fl)"
proof -
  have "\<forall>cols \<in> set (csv_header # map record_fields (file_records jsonlPath fl)). cols \<noteq> [] \<and> length cols \<le> 6"
    by (auto simp: csv_header_def record_fields_def)
  then have "read_table n (concat (map csv_line (csv_header # map record_fields (file_records jsonlPath fl)))) =
      Some (csv_header # map record_fields (file_records jsonlPath fl))"
    if "length (file_records jsonlPath fl) < n" for n
    using that by (intro read_table_csv) auto
  with csv_export_ok [OF assms] show ?thesis by (simp add: fields_record_fields)
qed

theorem csv_export_reads_back_witness:
  "\<exists>room. let create = (\<lambda>_. Inr \<lparr>file_bytes = [], file_room = room, file_open = True\<rparr>);
       run = ExportJSONLToDataFrameCSV (\<lambda>_. None) create ''t.jsonl'' (log_file [demo_event]) ''t.csv''
   in cr_err run = None \<and> (\<exists>content. cr_file run = Some content \<and>
        read_table 2 content = Some [csv_header, record_fields (event_record demo_event)])"
proof -
  let ?room = "length (csv_text [event_record demo_event])"
  let ?create = "\<lambda>_. Inr \<lparr>file_bytes = [], file_room = ?room, file_open = True\<rparr>"
  have ok: "cr_err (ExportJSONLToDataFrameCSV (\<lambda>_. None) ?create ''t.jsonl'' (log_file [demo_event]) ''t.csv'') = None"
    by (rule csv_export_fits [where room = ?room]) (simp_all add: log_file_ok ensureParentDir_def Let_def)
  have "length (file_records ''t.jsonl'' (log_file [demo_event])) < 2"
    "file_records ''t.jsonl'' (log_file [demo_event]) = [event_record demo_event]" by (simp_all add: log_file_ok)
  then obtain content where "cr_file (ExportJSONLToDataFrameCSV (\<lambda>_. None) ?create ''t.jsonl'' (log_file [demo_event]) ''t.csv'') = Some content"
    "read_table 2 content = Some [csv_header, record_fields (event_record demo_event)]"
    using csv_export_reads_back [OF ok refl] by auto
  with ok show ?thesis unfolding Let_def by blast
qed

text \<open>C24: A readable trace is exported whenever the directory, the file and the disk allow it: with room for the table
  the export returns no error. With a broken line it returns an error. In every case the file holds a prefix of the
  table of the records before the error.\<close>

theorem csv_export_outcome:
  assumes "create csvPath = Inr \<lparr>file_bytes = [], file_room = room, file_open = True\<rparr>"
  shows "(file_ok jsonlPath fl \<and> ensureParentDir mkdirAll csvPath = None \<and>
      length (csv_text (file_records jsonlPath fl)) \<le> room \<longrightarrow>
        cr_err (ExportJSONLToDataFrameCSV mkdirAll create jsonlPath fl csvPath) = None) \<and>
    (\<not> file_ok jsonlPath fl \<longrightarrow> cr_err (ExportJSONLToDataFrameCSV mkdirAll create jsonlPath fl csvPath) \<noteq> None) \<and>
    (\<forall>content. cr_file (ExportJSONLToDataFrameCSV mkdirAll create jsonlPath fl csvPath) = Some content \<longrightarrow>
        prefix content (csv_text (file_records jsonlPath fl)))"
proof -
  have "cr_err (ExportJSONLToDataFrameCSV mkdirAll create jsonlPath fl csvPath) = None \<Longrightarrow> file_ok jsonlPath fl"
    using csv_export_ok [where create = create and csvPath = csvPath, OF _ assms] by blast
  moreover have "cr_file (ExportJSONLToDataFrameCSV mkdirAll create jsonlPath fl csvPath) = Some content \<Longrightarrow>
      prefix content (csv_text (file_records jsonlPath fl))" for content
    using csv_export_prefix [where create = create and csvPath = csvPath, OF assms] by simp
  ultimately show ?thesis using csv_export_fits [where create = create and csvPath = csvPath and room = room] assms by blast
qed

theorem csv_export_outcome_witness:
  "let create = (\<lambda>_. Inr \<lparr>file_bytes = [], file_room = 1000, file_open = True\<rparr>) in
   \<not> file_ok ''t.jsonl'' broken_file \<and>
   cr_err (ExportJSONLToDataFrameCSV (\<lambda>_. None) create ''t.jsonl'' broken_file ''t.csv'') \<noteq> None"
  using csv_export_outcome [of "\<lambda>_. Inr \<lparr>file_bytes = [], file_room = 1000, file_open = True\<rparr>" "''t.csv''" 1000
      "''t.jsonl''" broken_file "\<lambda>_. None"] broken_file_records(2)
  by (simp add: Let_def)

end
