(* ===== verification/Cli.thy ===== *)
theory Cli
  imports Engine_Loop Export_SQLite Export_MySQL Export_PostgreSQL Export_CSV
begin

text \<open>
  The command line program of \<^verbatim>\<open>main.go\<close>: the flags with their defaults, the choice between tracing and
  exporting, the dispatch of \<^verbatim>\<open>runExport\<close>, the derived paths, and the launch of the traced command with the
  engine around it. A run starts from the values of the flags; theory \<open>Cli_Args\<close> parses them. Messages on the terminal are left out, but for the memory size.
\<close>

section \<open>Flags\<close>

record flags =
  flag_n :: u64
  flag_cmd :: string
  flag_shm :: string
  flag_sock :: string
  flag_out :: string
  flag_export :: string
  flag_in :: string
  flag_sqlite_out :: string
  flag_csv_out :: string
  flag_db_cli :: string
  flag_db_host :: string
  flag_db_port :: int
  flag_db_user :: string
  flag_db_password :: string
  flag_db_name :: string
  flag_db_table :: string
  flag_mysql_socket :: string
  flag_pg_maintenance_db :: string
  flag_pg_sslmode :: string

definition default_flags :: flags where
  "default_flags =
     \<lparr>flag_n = 128, flag_cmd = [], flag_shm = ''/tmp/corotracer.shm'', flag_sock = ''/tmp/corotracer.sock'',
      flag_out = ''trace_output.jsonl'', flag_export = [], flag_in = [], flag_sqlite_out = [], flag_csv_out = [],
      flag_db_cli = [], flag_db_host = ''127.0.0.1'', flag_db_port = 0, flag_db_user = [], flag_db_password = [],
      flag_db_name = DefaultDatabaseName, flag_db_table = DefaultTableName, flag_mysql_socket = [],
      flag_pg_maintenance_db = ''postgres'', flag_pg_sslmode = []\<rparr>"

record exportConfig =
  cfg_sqlitePath :: string
  cfg_csvPath :: string
  cfg_dbCLI :: string
  cfg_dbHost :: string
  cfg_dbPort :: int
  cfg_dbUser :: string
  cfg_dbPassword :: string
  cfg_dbName :: string
  cfg_dbTable :: string
  cfg_mysqlSocket :: string
  cfg_pgMaintenanceDB :: string
  cfg_pgSSLMode :: string

section \<open>Exporting\<close>

definition resolveExportInput :: "string \<Rightarrow> string \<Rightarrow> string" where
  "resolveExportInput inputPath defaultLogPath =
     (if TrimSpace inputPath \<noteq> [] then inputPath else defaultLogPath)"

definition deriveOutputPath :: "string \<Rightarrow> string \<Rightarrow> string" where
  "deriveOutputPath inputPath ext =
     (let base = TrimSuffix inputPath (Ext inputPath)
      in if TrimSpace base = [] \<or> base = ''.'' then ''trace_output'' @ ext else base @ ext)"

text \<open>How the traced command ends, or that the user interrupts the tracer first.\<close>

datatype target_end = CmdOk | CmdFailed os_err | Interrupted

text \<open>The world of a run: the client programs, the rest of package \<^verbatim>\<open>fmt\<close>, whether two paths name the same
  file, what is read at a path, what is read there once its file was removed, \<^verbatim>\<open>os.Create\<close>, the answers
  to \<^verbatim>\<open>NewTracerEngine\<close>, what the harvesting goroutine has made of the engine when the command
  ends, and how it ends.\<close>

record cli_world =
  cw_cli :: cli_env
  cw_printf :: "string \<Rightarrow> fmt_arg list \<Rightarrow> string"
  cw_same :: "string \<Rightarrow> string \<Rightarrow> bool"
  cw_file :: "string \<Rightarrow> jsonl_file"
  cw_gone :: "string \<Rightarrow> jsonl_file"
  cw_create :: "string \<Rightarrow> os_err + os_file"
  cw_os :: os_setup
  cw_harvested :: "TracerEngine \<Rightarrow> TracerEngine"
  cw_target :: target_end

text \<open>The trace as an exporter finds it: \<^verbatim>\<open>ExportJSONLToSQLite\<close> removes its output (\<^verbatim>\<open>os.Remove\<close>) and \<^verbatim>\<open>ExportJSONLToDataFrameCSV\<close> truncates it
  (\<^verbatim>\<open>os.Create\<close>) before \<^verbatim>\<open>StreamJSONL\<close> opens the input. The exporters take the content of the input as an argument, so the caller
  hands them what these two calls leave of it.\<close>

definition input_after_remove :: "cli_world \<Rightarrow> string \<Rightarrow> string \<Rightarrow> jsonl_file" where
  "input_after_remove w output inputPath =
     (if cw_same w output inputPath then cw_gone w inputPath else cw_file w inputPath)"

definition input_after_create :: "cli_world \<Rightarrow> string \<Rightarrow> string \<Rightarrow> jsonl_file" where
  "input_after_create w output inputPath =
     (if cw_same w output inputPath then (cw_file w inputPath)\<lparr>jf_bytes := []\<rparr> else cw_file w inputPath)"

datatype export_outcome = ViaClient export_run | CsvWritten csv_run | NoExport export_err

fun outcome_err :: "export_outcome \<Rightarrow> export_err option" where
  "outcome_err (ViaClient r) = xr_err r"
| "outcome_err (CsvWritten r) = cr_err r"
| "outcome_err (NoExport err) = Some err"

definition sqlite_target :: "string \<Rightarrow> exportConfig \<Rightarrow> string" where
  "sqlite_target inputPath cfg =
     (let output = cfg_sqlitePath cfg
      in if TrimSpace output = [] then deriveOutputPath inputPath ''.sqlite'' else output)"

definition csv_target :: "string \<Rightarrow> exportConfig \<Rightarrow> string" where
  "csv_target inputPath cfg =
     (let output = cfg_csvPath cfg
      in if TrimSpace output = [] then deriveOutputPath inputPath ''.csv'' else output)"

definition mysql_options :: "exportConfig \<Rightarrow> MySQLExportOptions" where
  "mysql_options cfg =
     \<lparr>my_Command = cfg_dbCLI cfg, my_Host = cfg_dbHost cfg, my_Port = cfg_dbPort cfg, my_User = cfg_dbUser cfg,
      my_Password = cfg_dbPassword cfg, my_Socket = cfg_mysqlSocket cfg, my_Database = cfg_dbName cfg,
      my_Table = cfg_dbTable cfg\<rparr>"

definition postgres_options :: "exportConfig \<Rightarrow> PostgreSQLExportOptions" where
  "postgres_options cfg =
     \<lparr>pg_Command = cfg_dbCLI cfg, pg_Host = cfg_dbHost cfg, pg_Port = cfg_dbPort cfg, pg_User = cfg_dbUser cfg,
      pg_Password = cfg_dbPassword cfg, pg_Database = cfg_dbName cfg, pg_Table = cfg_dbTable cfg,
      pg_MaintenanceDB = cfg_pgMaintenanceDB cfg, pg_SSLMode = cfg_pgSSLMode cfg\<rparr>"

definition runExport :: "cli_world \<Rightarrow> string \<Rightarrow> string \<Rightarrow> exportConfig \<Rightarrow> export_outcome" where
  "runExport w kind inputPath cfg =
     (let exportType = ToLower (TrimSpace kind)
      in if exportType = ''sqlite'' then
           let output = sqlite_target inputPath cfg
           in ViaClient (ExportJSONLToSQLite output (cw_cli w) inputPath (input_after_remove w output inputPath))
         else if exportType = ''dataframe'' \<or> exportType = ''csv'' then
           let output = csv_target inputPath cfg
           in CsvWritten (ExportJSONLToDataFrameCSV (ce_mkdirAll (cw_cli w)) (cw_create w) inputPath
                (input_after_create w output inputPath) output)
         else if exportType = ''mysql'' then
           ViaClient (ExportJSONLToMySQL (cw_printf w) (mysql_options cfg) (cw_cli w) inputPath (cw_file w inputPath))
         else if exportType = ''postgres'' \<or> exportType = ''postgresql'' then
           ViaClient (ExportJSONLToPostgreSQL (cw_printf w) (postgres_options cfg) (cw_cli w) inputPath
             (cw_file w inputPath))
         else NoExport (Unsupported kind))"

section \<open>The program\<close>

text \<open>A traced run: the engine in its last state, the command line of the child, the memory size printed.\<close>

record trace_run =
  tr_engine :: TracerEngine
  tr_command :: command_line
  tr_memory :: u64

datatype main_result =
    UsageError
  | ExportFailed export_outcome
  | ExportFinished export_outcome
  | InitFailed os_err "resource list"
  | Panicked "resource list"
  | TargetFailed trace_run
  | TargetFinished trace_run
  | Stopped trace_run

definition export_config :: "flags \<Rightarrow> exportConfig" where
  "export_config f =
     \<lparr>cfg_sqlitePath = flag_sqlite_out f, cfg_csvPath = flag_csv_out f, cfg_dbCLI = flag_db_cli f,
      cfg_dbHost = flag_db_host f, cfg_dbPort = flag_db_port f, cfg_dbUser = flag_db_user f,
      cfg_dbPassword = flag_db_password f, cfg_dbName = flag_db_name f, cfg_dbTable = flag_db_table f,
      cfg_mysqlSocket = flag_mysql_socket f, cfg_pgMaintenanceDB = flag_pg_maintenance_db f,
      cfg_pgSSLMode = flag_pg_sslmode f\<rparr>"

definition target_command :: "cli_world \<Rightarrow> flags \<Rightarrow> command_line" where
  "target_command w f =
     (''sh'', [''-c'', flag_cmd f],
      Some (ce_environ (cw_cli w) @
        [''CTP_SHM_PATH='' @ flag_shm f, ''CTP_SOCK_PATH='' @ flag_sock f,
         ''CTP_MAX_STATIONS='' @ FormatUint (flag_n f)]))"

text \<open>\<^verbatim>\<open>log.Fatalf\<close> ends the process without the deferred \<^verbatim>\<open>Close\<close>; the signal handler calls it.\<close>

definition run_target :: "cli_world \<Rightarrow> flags \<Rightarrow> TracerEngine \<Rightarrow> main_result" where
  "run_target w f tracer =
     (let e = cw_harvested w tracer;
          run = \<lparr>tr_engine = e, tr_command = target_command w f, tr_memory = 64 + flag_n f * 1024\<rparr>
      in case cw_target w of
           Interrupted \<Rightarrow> Stopped (run\<lparr>tr_engine := eng_Close e\<rparr>)
         | CmdFailed err \<Rightarrow> TargetFailed run
         | CmdOk \<Rightarrow> TargetFinished (run\<lparr>tr_engine := eng_Close e\<rparr>))"

definition main :: "cli_world \<Rightarrow> flags \<Rightarrow> main_result" where
  "main w f =
     (let traceMode = (TrimSpace (flag_cmd f) \<noteq> []);
          exportMode = (TrimSpace (flag_export f) \<noteq> [])
      in if \<not> traceMode \<and> \<not> exportMode then UsageError
         else if traceMode \<and> exportMode then UsageError
         else if exportMode then
           let exportInput = resolveExportInput (flag_in f) (flag_out f);
               outcome = runExport w (TrimSpace (flag_export f)) exportInput (export_config f)
           in if outcome_err outcome \<noteq> None then ExportFailed outcome else ExportFinished outcome
         else
           case NewTracerEngine (ucast (flag_n f)) (cw_os w) of
             InitError err left \<Rightarrow> InitFailed err left
           | InitPanic left \<Rightarrow> Panicked left
           | Started tracer \<Rightarrow> run_target w f tracer)"

section \<open>Paths\<close>

lemma ext_scan_plain: "CHR ''/'' \<notin> set e \<Longrightarrow> CHR ''.'' \<notin> set e \<Longrightarrow> ext_scan (e @ CHR ''.'' # s) acc = CHR ''.'' # rev e @ acc"
  by (induction e arbitrary: acc) auto

lemma Ext_append:
  "CHR ''/'' \<notin> set e \<Longrightarrow> CHR ''.'' \<notin> set e \<Longrightarrow> Ext (base @ CHR ''.'' # e) = CHR ''.'' # e"
  using ext_scan_plain [of "rev e" "rev base" "[]"] by (simp add: Ext_def)

lemma path_base: "TrimSuffix path (Ext path) @ Ext path = path"
  using Ext_suffix [of path] by (metis TrimSuffix_append suffix_def)

lemma deriveOutputPath_eq:
  "deriveOutputPath path ext =
     (if TrimSpace (TrimSuffix path (Ext path)) = [] \<or> TrimSuffix path (Ext path) = ''.'' then ''trace_output'' @ ext
      else TrimSuffix path (Ext path) @ ext)"
  by (simp add: deriveOutputPath_def Let_def)

lemma trace_output_not_blank: "TrimSpace ''trace_output'' \<noteq> []"
  by code_simp

text \<open>The derived output path has the extension asked for. It is the input path itself exactly when the input already
  has that extension and a name before it; then the export overwrites the trace it reads.\<close>

lemma derived_path_collides:
  assumes "ext = CHR ''.'' # e" "CHR ''.'' \<notin> set e" "CHR ''/'' \<notin> set e"
  shows "Ext (deriveOutputPath inputPath ext) = ext \<and>
    (deriveOutputPath inputPath ext = inputPath \<longleftrightarrow>
       Ext inputPath = ext \<and> TrimSpace (TrimSuffix inputPath ext) \<noteq> [] \<and> TrimSuffix inputPath ext \<noteq> ''.'')"
proof -
  let ?base = "TrimSuffix inputPath (Ext inputPath)"
  have ext: "Ext (b @ ext) = ext" for b using Ext_append assms by simp
  have path: "?base @ Ext inputPath = inputPath" by (rule path_base)
  have "Ext (deriveOutputPath inputPath ext) = ext" 
    by (simp only: deriveOutputPath_eq if_distrib [of Ext] ext if_cancel)
  moreover have "deriveOutputPath inputPath ext = inputPath \<longleftrightarrow>
      Ext inputPath = ext \<and> TrimSpace (TrimSuffix inputPath ext) \<noteq> [] \<and> TrimSuffix inputPath ext \<noteq> ''.''"
  proof (cases "TrimSpace ?base = [] \<or> ?base = ''.''")
    case True
    have False if "''trace_output'' @ ext = inputPath"
    proof -
      have "Ext inputPath = ext" using ext [of "''trace_output''"] that by simp
      then have "?base = ''trace_output''" using TrimSuffix_append [of "''trace_output''" ext] that by simp
      with True trace_output_not_blank show False by simp
    qed
    with True show ?thesis by (auto simp: deriveOutputPath_eq)
  next
    case False
    then have "deriveOutputPath inputPath ext = ?base @ ext" by (simp add: deriveOutputPath_eq)
    with False path show ?thesis by (metis append_same_eq same_append_eq)
  qed
  ultimately show ?thesis by blast
qed

section \<open>Modes\<close>

lemma main_exported:
  assumes "main w f = ExportFinished r"
  shows "r = runExport w (TrimSpace (flag_export f)) (resolveExportInput (flag_in f) (flag_out f)) (export_config f)"
    "outcome_err r = None"
proof -
  have "run_target w f e \<noteq> ExportFinished r" for e by (cases "cw_target w") (simp_all add: run_target_def)
  then have "\<not> (TrimSpace (flag_cmd f) \<noteq> [] \<and> TrimSpace (flag_export f) = [])"
    using assms by (auto simp: main_def Let_def split: init_result.splits)
  with assms show "r = runExport w (TrimSpace (flag_export f)) (resolveExportInput (flag_in f) (flag_out f)) (export_config f)"
    "outcome_err r = None"
    by (auto simp: main_def Let_def split: if_splits)
qed

text \<open>C27: The program traces exactly when only \<^verbatim>\<open>-cmd\<close> is given and exports exactly when only \<^verbatim>\<open>-export\<close> is; with
  both or none (blank text counts as none) it stops before it touches anything. An export is reported finished only
  when the exporter returned no error. In trace mode the command runs exactly when the engine could be
  started, which needs a station count that is not 0 modulo \<open>2 ^ 32\<close>.\<close>

theorem main_modes:
  "(main w f = UsageError \<longleftrightarrow> (TrimSpace (flag_cmd f) = [] \<longleftrightarrow> TrimSpace (flag_export f) = [])) \<and>
   ((\<exists>r. main w f = ExportFinished r) \<longleftrightarrow> TrimSpace (flag_cmd f) = [] \<and> TrimSpace (flag_export f) \<noteq> [] \<and>
      outcome_err (runExport w (TrimSpace (flag_export f)) (resolveExportInput (flag_in f) (flag_out f)) (export_config f)) = None) \<and>
   ((\<exists>r. main w f = TargetFinished r \<or> main w f = TargetFailed r \<or> main w f = Stopped r) \<longleftrightarrow>
      TrimSpace (flag_cmd f) \<noteq> [] \<and> TrimSpace (flag_export f) = [] \<and> unat (flag_n f) mod 2 ^ 32 \<noteq> 0 \<and>
      open_err (cw_os w) = None \<and> truncate_err (cw_os w) = None \<and> mmap_err (cw_os w) = None \<and>
      listen_err (cw_os w) = None \<and> (\<exists>file. log_opened (cw_os w) = Inr file))"
proof -
  have n: "(ucast (flag_n f) :: u32) \<noteq> 0 \<longleftrightarrow> unat (flag_n f) mod 2 ^ 32 \<noteq> 0"
    by (simp add: unat_eq_0 [symmetric] unsigned_ucast_eq take_bit_eq_mod)
  have started: "(\<exists>e. NewTracerEngine (ucast (flag_n f)) (cw_os w) = Started e) \<longleftrightarrow>
      unat (flag_n f) mod 2 ^ 32 \<noteq> 0 \<and> open_err (cw_os w) = None \<and> truncate_err (cw_os w) = None \<and>
      mmap_err (cw_os w) = None \<and> listen_err (cw_os w) = None \<and> (\<exists>file. log_opened (cw_os w) = Inr file)"
    unfolding NewTracerEngine_Started n [symmetric] by blast
  have ran: "(\<exists>r. run_target w f e = TargetFinished r \<or> run_target w f e = TargetFailed r \<or> run_target w f e = Stopped r) \<and>
      run_target w f e \<noteq> UsageError \<and> (\<forall>r. run_target w f e \<noteq> ExportFinished r)" for e
    by (cases "cw_target w") (simp_all add: run_target_def)
  show ?thesis
    using started ran by (auto simp: main_def Let_def split: init_result.splits)
qed

section \<open>Exports\<close>

text \<open>The commands an export starts, without their environment.\<close>

fun outcome_args :: "export_outcome \<Rightarrow> (string \<times> string list) list" where
  "outcome_args (ViaClient r) = map (\<lambda>(command, args, _). (command, args)) (xr_cmds r)"
| "outcome_args (CsvWritten r) = []"
| "outcome_args (NoExport err) = []"

lemma mysql_args_password:
  "map (\<lambda>(command, args, _). (command, args)) (xr_cmds (ExportJSONLToMySQL printf (options\<lparr>my_Password := pw\<rparr>) env path fl)) =
   map (\<lambda>(command, args, _). (command, args)) (xr_cmds (ExportJSONLToMySQL printf options env path fl))"
  by (simp add: ExportJSONLToMySQL_def mysql_args_def Let_def split: option.splits)

lemma postgres_prepare_password:
  "map (\<lambda>(command, args, _). (command, args)) (fst (ensurePostgreSQLDatabaseExists env command (options\<lparr>pg_Password := pw\<rparr>) db)) =
   map (\<lambda>(command, args, _). (command, args)) (fst (ensurePostgreSQLDatabaseExists env command options db)) \<and>
   snd (ensurePostgreSQLDatabaseExists env command (options\<lparr>pg_Password := pw\<rparr>) db) =
   snd (ensurePostgreSQLDatabaseExists env command options db)"
proof -
  let ?args = "postgreSQLCLIArgs options (defaultString (pg_MaintenanceDB options) ''postgres'')"
  have args: "postgreSQLCLIArgs (options\<lparr>pg_Password := pw\<rparr>) name = postgreSQLCLIArgs options name" for name
    by (simp add: postgreSQLCLIArgs_def Let_def)
  obtain out e where "ce_run env command (?args @ [''-tAc'', check_database_sql db]) = (out, e)"
    by (cases "ce_run env command (?args @ [''-tAc'', check_database_sql db])")
  then show ?thesis
    by (cases e; cases "TrimSpace out = ''1''"; cases "snd (ce_run env command (?args @ [''-c'', create_database_sql db]))")
       (simp_all add: ensurePostgreSQLDatabaseExists_def args Let_def)
qed

lemma postgres_args_password:
  "map (\<lambda>(command, args, _). (command, args)) (xr_cmds (ExportJSONLToPostgreSQL printf (options\<lparr>pg_Password := pw\<rparr>) env path fl)) =
   map (\<lambda>(command, args, _). (command, args)) (xr_cmds (ExportJSONLToPostgreSQL printf options env path fl))"
proof -
  let ?command = "defaultString (pg_Command options) ''psql''" and ?db = "defaultString (pg_Database options) DefaultDatabaseName"
  obtain cmds e where e: "ensurePostgreSQLDatabaseExists env ?command options ?db = (cmds, e)"
    by (cases "ensurePostgreSQLDatabaseExists env ?command options ?db")
  obtain cmds' e' where e': "ensurePostgreSQLDatabaseExists env ?command (options\<lparr>pg_Password := pw\<rparr>) ?db = (cmds', e')"
    by (cases "ensurePostgreSQLDatabaseExists env ?command (options\<lparr>pg_Password := pw\<rparr>) ?db")
  have "e' = e" "map (\<lambda>(command, args, _). (command, args)) cmds' = map (\<lambda>(command, args, _). (command, args)) cmds"
    using postgres_prepare_password [of env ?command pw options ?db] e e' by simp_all
  with e e' show ?thesis
    by (simp add: ExportJSONLToPostgreSQL_def postgreSQLCLIArgs_def Let_def split: option.splits)
qed

text \<open>C32: Whatever the export kind, the command lines started do not depend on the database password: it can only
  reach a child through its environment. An unknown kind, and only that, starts nothing and is
  reported as unsupported; kinds are recognised without regard to case and surrounding space.\<close>

theorem export_arguments:
  "outcome_args (runExport w kind inputPath (cfg\<lparr>cfg_dbPassword := pw\<rparr>)) = outcome_args (runExport w kind inputPath cfg) \<and>
   ((\<exists>err. runExport w kind inputPath cfg = NoExport err) \<longleftrightarrow>
      ToLower (TrimSpace kind) \<notin> {''sqlite'', ''dataframe'', ''csv'', ''mysql'', ''postgres'', ''postgresql''}) \<and>
   (ToLower (TrimSpace kind) = ToLower (TrimSpace kind') \<and> runExport w kind inputPath cfg \<noteq> NoExport (Unsupported kind)
      \<longrightarrow> runExport w kind' inputPath cfg = runExport w kind inputPath cfg)"
proof -
  have "mysql_options (cfg\<lparr>cfg_dbPassword := pw\<rparr>) = (mysql_options cfg)\<lparr>my_Password := pw\<rparr>"
    "postgres_options (cfg\<lparr>cfg_dbPassword := pw\<rparr>) = (postgres_options cfg)\<lparr>pg_Password := pw\<rparr>"
    by (simp_all add: mysql_options_def postgres_options_def)
  then show ?thesis
    by (simp add: runExport_def sqlite_target_def csv_target_def mysql_args_password postgres_args_password Let_def
        del: ToLower.simps)
qed

definition demo_world :: "nat \<Rightarrow> target_end \<Rightarrow> cli_world" where
  "demo_world room ends =
     \<lparr>cw_cli = good_env 10000, cw_printf = demo_printf, cw_same = (=), cw_file = (\<lambda>_. log_file [demo_event]),
      cw_gone = (\<lambda>_. broken_file), cw_create = (\<lambda>_. Inr \<lparr>file_bytes = [], file_room = room, file_open = True\<rparr>),
      cw_os = demo_os, cw_harvested = (\<lambda>e. e\<lparr>eng_writer := write_event (eng_writer e) demo_event\<rparr>), cw_target = ends\<rparr>"

theorem export_arguments_witness:
  "runExport (demo_world 100 CmdOk) '' CSV '' ''t.jsonl'' (export_config default_flags) =
   runExport (demo_world 100 CmdOk) ''csv'' ''t.jsonl'' (export_config default_flags)"
proof -
  have "ToLower (TrimSpace ''csv'') = ToLower (TrimSpace '' CSV '')" by code_simp
  moreover have "ToLower (TrimSpace ''csv'') = ''csv''" by code_simp
  then have "runExport w ''csv'' path cfg \<noteq> NoExport (Unsupported ''csv'')" for w path cfg
    by (simp add: runExport_def Let_def)
  ultimately show ?thesis using export_arguments [where kind = "''csv''" and kind' = "'' CSV ''"] by blast
qed

lemma file_records_empty:
  assumes "jf_open_err fl = None" "jf_read_err fl = None" "jf_bytes fl = []"
  shows "file_ok path fl" "file_records path fl = []"
  using assms by (simp_all add: file_ok_def file_records_def StreamJSONL_def scan_lines_def)

text \<open>C31: An export to CSV from a trace that already ends in \<^verbatim>\<open>.csv\<close>, with no other output named, destroys the trace: the
  output is created over the input before it is read, the program reports success, and the file holds only
  the header line, whatever the trace held.\<close>

theorem csv_export_in_place:
  assumes "TrimSpace (flag_cmd f) = []" "ToLower (TrimSpace (TrimSpace (flag_export f))) = ''csv''"
    "TrimSpace (flag_in f) \<noteq> []" "TrimSpace (flag_csv_out f) = []"
    "flag_in f = base @ ''.csv''" "TrimSpace base \<noteq> []" "base \<noteq> ''.''"
    "cw_same w (flag_in f) (flag_in f)" "jf_open_err (cw_file w (flag_in f)) = None" "jf_read_err (cw_file w (flag_in f)) = None"
    "ensureParentDir (ce_mkdirAll (cw_cli w)) (flag_in f) = None"
    "cw_create w (flag_in f) = Inr \<lparr>file_bytes = [], file_room = room, file_open = True\<rparr>" "length (csv_line csv_header) \<le> room"
  shows "\<exists>r. main w f = ExportFinished (CsvWritten r) \<and> cr_file r = Some (csv_line csv_header)"
proof -
  let ?fl = "(cw_file w (flag_in f))\<lparr>jf_bytes := []\<rparr>"
  let ?r = "ExportJSONLToDataFrameCSV (ce_mkdirAll (cw_cli w)) (cw_create w) (flag_in f) ?fl (flag_in f)"
  have fl: "file_ok (flag_in f) ?fl" "file_records (flag_in f) ?fl = []"
    using assms(9,10) by (auto intro: file_records_empty)
  have "Ext (flag_in f) = ''.csv''" using Ext_append [of "''csv''" base] assms(5) by simp
  then have "deriveOutputPath (flag_in f) ''.csv'' = flag_in f"
    using assms(5-7) TrimSuffix_append [of base "''.csv''"] derived_path_collides [of "''.csv''" "''csv''" "flag_in f"] by simp
  then have target: "csv_target (flag_in f) (export_config f) = flag_in f"
    using assms(4) by (simp add: csv_target_def export_config_def)
  have "TrimSpace (flag_export f) \<noteq> []"
  proof
    assume "TrimSpace (flag_export f) = []"
    moreover have "ToLower (TrimSpace []) \<noteq> ''csv''" by code_simp
    ultimately show False using assms(2) by simp
  qed
  moreover have ok: "cr_err ?r = None"
    by (rule csv_export_fits [where create = "cw_create w", OF fl(1) assms(11,12)])
       (use assms(13) fl(2) in \<open>simp add: csv_text_def\<close>)
  ultimately have "main w f = ExportFinished (CsvWritten ?r)"
    using assms(1-3,8) target
    by (simp add: main_def runExport_def resolveExportInput_def input_after_create_def Let_def)
  moreover have "cr_file ?r = Some (csv_line csv_header)"
    using csv_export_ok [where create = "cw_create w", OF ok assms(12)] fl(2) by simp
  ultimately show ?thesis by blast
qed

theorem csv_export_in_place_witness:
  "let f = default_flags\<lparr>flag_export := ''csv'', flag_in := ''run.csv''\<rparr>
   in jf_bytes (cw_file (demo_world 40 CmdOk) (flag_in f)) \<noteq> [] \<and>
      (\<exists>r. main (demo_world 40 CmdOk) f = ExportFinished (CsvWritten r) \<and> cr_file r = Some (csv_line csv_header))"
proof -
  let ?f = "default_flags\<lparr>flag_export := ''csv'', flag_in := ''run.csv''\<rparr>" and ?w = "demo_world 40 CmdOk"
  have "TrimSpace (flag_cmd ?f) = []" "ToLower (TrimSpace (TrimSpace (flag_export ?f))) = ''csv''"
    "TrimSpace (flag_in ?f) \<noteq> []" "TrimSpace (flag_csv_out ?f) = []" "flag_in ?f = ''run'' @ ''.csv''"
    "TrimSpace ''run'' \<noteq> []" "''run'' \<noteq> ''.''" "length (csv_line csv_header) \<le> 40"
    by code_simp+
  moreover have "cw_same ?w (flag_in ?f) (flag_in ?f)" "jf_open_err (cw_file ?w (flag_in ?f)) = None"
    "jf_read_err (cw_file ?w (flag_in ?f)) = None" "ensureParentDir (ce_mkdirAll (cw_cli ?w)) (flag_in ?f) = None"
    "cw_create ?w (flag_in ?f) = Inr \<lparr>file_bytes = [], file_room = 40, file_open = True\<rparr>"
    by (simp_all add: demo_world_def log_file_def ensureParentDir_def Let_def)
  moreover have "jf_bytes (cw_file ?w (flag_in ?f)) \<noteq> []"
    by (simp add: demo_world_def log_file_def event_line_def slot_json_def)
  ultimately show ?thesis using csv_export_in_place [of ?f "''run''" ?w 40] unfolding Let_def by blast
qed

section \<open>Tracing\<close>

text \<open>C33: The numbers of a traced run: the engine has room for \<^verbatim>\<open>-n\<close> modulo \<open>2 ^ 32\<close> stations, while the traced program is
  told \<^verbatim>\<open>-n\<close> itself; the two agree exactly for \<open>n < 2 ^ 32\<close>. The mapping is then 960 bytes larger than the
  size printed. (The harvesting goroutine changes neither the mapping's size nor the limit.)\<close>

theorem traced_station_count:
  assumes "main w f = TargetFinished r \<or> main w f = TargetFailed r \<or> main w f = Stopped r"
    "\<And>e. eng_maxStations (cw_harvested w e) = eng_maxStations e \<and> length (eng_mmap (cw_harvested w e)) = length (eng_mmap e)"
  shows "unat (eng_maxStations (tr_engine r)) = unat (flag_n f) mod 2 ^ 32 \<and>
    length (eng_mmap (tr_engine r)) = 1024 + 1024 * (unat (flag_n f) mod 2 ^ 32) \<and>
    (\<exists>vars. tr_command r = (''sh'', [''-c'', flag_cmd f], Some (vars @ [''CTP_MAX_STATIONS='' @ FormatUint (flag_n f)]))) \<and>
    (unat (eng_maxStations (tr_engine r)) = unat (flag_n f) \<longleftrightarrow> unat (flag_n f) < 2 ^ 32) \<and>
    (unat (flag_n f) < 2 ^ 32 \<longrightarrow> length (eng_mmap (tr_engine r)) = unat (tr_memory r) + 960)"
proof -
  obtain e where e: "NewTracerEngine (ucast (flag_n f)) (cw_os w) = Started e" "main w f = run_target w f e"
    using assms(1) by (auto simp: main_def Let_def split: init_result.splits if_splits)
  have r: "tr_engine r = cw_harvested w e \<or> tr_engine r = eng_Close (cw_harvested w e)"
      "tr_command r = target_command w f" "tr_memory r = 64 + flag_n f * 1024"
    using assms(1) e(2) by (auto simp: run_target_def Let_def split: target_end.splits)
  have u: "unat (ucast (flag_n f) :: u32) = unat (flag_n f) mod 2 ^ 32"
    by (simp add: unsigned_ucast_eq take_bit_eq_mod)
  have "eng_maxStations e = ucast (flag_n f)" "length (eng_mmap e) = 1024 + 1024 * (unat (flag_n f) mod 2 ^ 32)"
    using e(1) unfolding NewTracerEngine_Started by (auto simp: length_init_header u)
  with r(1) assms(2) u have "unat (eng_maxStations (tr_engine r)) = unat (flag_n f) mod 2 ^ 32"
      "length (eng_mmap (tr_engine r)) = 1024 + 1024 * (unat (flag_n f) mod 2 ^ 32)"
    by (auto simp: eng_Close_def)
  moreover have "unat (tr_memory r) = 64 + 1024 * unat (flag_n f)" if "unat (flag_n f) < 2 ^ 32"
    using that unfolding r(3) by (simp add: unat_word_ariths)
  moreover have "unat (flag_n f) mod 2 ^ 32 = unat (flag_n f) \<longleftrightarrow> unat (flag_n f) < 2 ^ 32"
    by (metis mod_less mod_less_divisor zero_less_numeral zero_less_power)
  ultimately show ?thesis unfolding r(2) target_command_def by auto
qed

definition trace_flags :: flags where
  "trace_flags = default_flags\<lparr>flag_cmd := ''./app''\<rparr>"

lemma demo_trace:
  "\<exists>e. eng_writer e = \<lparr>sw_writer = NewWriterSize \<lparr>file_bytes = ''{}'' @ [newline], file_room = 1000000, file_open = True\<rparr> (128 * 1024),
            sw_line = []\<rparr> \<and>
     (\<forall>room ends. main (demo_world room ends) trace_flags = run_target (demo_world room ends) trace_flags e)"
proof -
  have blank: "TrimSpace (flag_cmd trace_flags) \<noteq> []" "TrimSpace (flag_export trace_flags) = []" "flag_n trace_flags = 128"
    by code_simp+
  obtain e where "NewTracerEngine 128 demo_os = Started e"
    "eng_writer e = \<lparr>sw_writer = NewWriterSize \<lparr>file_bytes = ''{}'' @ [newline], file_room = 1000000, file_open = True\<rparr> (128 * 1024),
       sw_line = []\<rparr>"
    unfolding NewTracerEngine_Started by (simp add: demo_os_def)
  with blank show ?thesis by (auto simp: main_def demo_world_def Let_def)
qed

theorem traced_station_count_witness:
  "\<exists>r. main (demo_world 40 CmdOk) trace_flags = TargetFinished r \<and>
     unat (eng_maxStations (tr_engine r)) = 128 \<and> length (eng_mmap (tr_engine r)) = unat (tr_memory r) + 960"
proof -
  obtain e where e: "main (demo_world 40 CmdOk) trace_flags = run_target (demo_world 40 CmdOk) trace_flags e"
    using demo_trace by blast
  obtain r where r: "main (demo_world 40 CmdOk) trace_flags = TargetFinished r"
    unfolding e by (simp add: run_target_def demo_world_def Let_def)
  have "flag_n trace_flags = 128" by code_simp
  moreover have "eng_maxStations (cw_harvested (demo_world 40 CmdOk) e) = eng_maxStations e \<and>
      length (eng_mmap (cw_harvested (demo_world 40 CmdOk) e)) = length (eng_mmap e)" for e by (simp add: demo_world_def)
  ultimately show ?thesis using traced_station_count [of "demo_world 40 CmdOk" trace_flags r] r by auto
qed

text \<open>C30: When the traced command ends with an error the program ends without closing the log. With the same command line and
  the same harvest up to that moment: the engine the failed run leaves behind is the harvested one as it stands, its log file still
  open and without the bytes in its buffer, while a run whose command succeeds, or that is interrupted, has these bytes
  in its file. So the failed run loses exactly what was buffered, and nothing only when the buffer was empty.\<close>

theorem failed_target_loses_buffer:
  assumes "main (w\<lparr>cw_target := CmdFailed err\<rparr>) f = TargetFailed r" "main (w\<lparr>cw_target := CmdOk\<rparr>) f = TargetFinished r'"
    "\<not> sw_failed (eng_writer (tr_engine r'))"
  shows "\<exists>e. NewTracerEngine (ucast (flag_n f)) (cw_os w) = Started e \<and>
    (let sw = eng_writer (cw_harvested w e) in
     eng_writer (tr_engine r) = sw \<and>
     sw_file (eng_writer (tr_engine r')) = sw_file sw @ bw_buf (sw_writer sw) \<and>
     (sw_file (eng_writer (tr_engine r)) = sw_file (eng_writer (tr_engine r')) \<longleftrightarrow> bw_buf (sw_writer sw) = [])) \<and>
    main (w\<lparr>cw_target := Interrupted\<rparr>) f = Stopped r'"
proof -
  obtain e where e: "NewTracerEngine (ucast (flag_n f)) (cw_os w) = Started e"
      "main (w\<lparr>cw_target := ends\<rparr>) f = run_target (w\<lparr>cw_target := ends\<rparr>) f e" for ends
    using assms(1) by (auto simp: main_def Let_def split: init_result.splits if_splits)
  have r: "tr_engine r = cw_harvested w e" "tr_engine r' = eng_Close (cw_harvested w e)"
      "main (w\<lparr>cw_target := Interrupted\<rparr>) f = Stopped r'"
    using assms(1,2) by (auto simp: e(2) run_target_def target_command_def Let_def)
  have "\<not> sw_failed (fst (sw_Flush (eng_writer (cw_harvested w e))))"
    using assms(3) unfolding r(2) by (simp add: eng_Close_def sw_Close_def os_close_def Let_def)
  from sw_Flush_file [OF this] r e(1) show ?thesis
    by (simp add: eng_Close_def sw_Close_file sw_stream_def osf.stream_def sw_file_def [of "eng_writer (cw_harvested w e)"] Let_def)
qed

theorem failed_target_loses_buffer_witness:
  "\<exists>r r'. main ((demo_world 40 CmdOk)\<lparr>cw_target := CmdFailed ''exit status 1''\<rparr>) trace_flags = TargetFailed r \<and>
     main ((demo_world 40 CmdOk)\<lparr>cw_target := CmdOk\<rparr>) trace_flags = TargetFinished r' \<and>
     sw_file (eng_writer (tr_engine r)) = ''{}'' @ [newline] \<and>
     sw_file (eng_writer (tr_engine r')) = ''{}'' @ [newline] @ event_line demo_event"
proof -
  let ?w = "demo_world 40 CmdOk"
  let ?sw = "\<lparr>sw_writer = NewWriterSize \<lparr>file_bytes = ''{}'' @ [newline], file_room = 1000000, file_open = True\<rparr> (128 * 1024), sw_line = []\<rparr>"
  obtain e where e: "eng_writer e = ?sw"
      "\<And>ends. main (?w\<lparr>cw_target := ends\<rparr>) trace_flags = run_target (?w\<lparr>cw_target := ends\<rparr>) trace_flags e"
    using demo_trace by (auto simp: demo_world_def)
  obtain r r' where r: "main (?w\<lparr>cw_target := CmdFailed ''exit status 1''\<rparr>) trace_flags = TargetFailed r"
      "main (?w\<lparr>cw_target := CmdOk\<rparr>) trace_flags = TargetFinished r'"
      "tr_engine r = cw_harvested ?w e" "tr_engine r' = eng_Close (cw_harvested ?w e)"
    unfolding e(2) by (simp add: run_target_def Let_def)
  have w: "eng_writer (tr_engine r) = write_event ?sw demo_event"
    unfolding r(3) by (simp add: demo_world_def e(1))
  have "length (event_line demo_event) \<le> 131072" using length_event_line [of demo_event] by simp
  then have buf: "sw_file (write_event ?sw demo_event) = ''{}'' @ [newline]"
      "bw_buf (sw_writer (write_event ?sw demo_event)) = event_line demo_event"
    by (simp_all add: write_event_def bw_write_def bw_avail_def NewWriterSize_def sw_file_def numeral_2_eq_2 Let_def)
  have "sw_fits ?sw (160 * length [demo_event] + 0)"
    by (simp add: sw_fits_def osf.fits_def NewWriterSize_def os_room_def)
  then have "sw_fits (write_event ?sw demo_event) 0"
    using write_events_fits [of ?sw "[demo_event]" 0] by (simp add: write_events_def)
  then have "\<not> sw_failed (fst (sw_Flush (write_event ?sw demo_event)))"
    unfolding sw_Flush_err using osf.flush_fits [of "sw_writer (write_event ?sw demo_event)" 0]
    by (simp add: sw_fits_def sw_Flush_def case_prod_unfold)
  then have ok: "\<not> sw_failed (eng_writer (tr_engine r'))"
    using w unfolding r(3,4) by (simp add: eng_Close_def sw_Close_def os_close_def Let_def)
  have "sw_file (eng_writer (tr_engine r')) =
      sw_file (eng_writer (tr_engine r)) @ bw_buf (sw_writer (eng_writer (tr_engine r)))"
    using failed_target_loses_buffer [OF r(1,2) ok] unfolding Let_def by metis
  moreover have "sw_file (eng_writer (tr_engine r)) = ''{}'' @ [newline]"
      "bw_buf (sw_writer (eng_writer (tr_engine r))) = event_line demo_event" using buf by (simp_all only: w)
  ultimately show ?thesis using r(1,2) by auto
qed

end
