(* ===== verification/Go_Flag.thy ===== *)
theory Go_Flag
  imports Go_Strings
begin

text \<open>
  What \<^verbatim>\<open>main.go\<close> uses of package \<^verbatim>\<open>flag\<close>: the parsing of an argument list with flags that take a value, and, for
  the values of numeric flags, \<^verbatim>\<open>strconv.ParseUint\<close> and \<^verbatim>\<open>strconv.ParseInt\<close> with base 0 and 64 bits: a prefix chooses the
  base, and single underscores may separate digits.
\<close>

section \<open>Numbers\<close>

text \<open>The byte \<^verbatim>\<open>c | 0x20\<close>.\<close>

definition byte_lower :: "char \<Rightarrow> nat" where
  "byte_lower c = (of_char c :: nat) OR 32"

definition uint_digit :: "char \<Rightarrow> nat option" where
  "uint_digit c =
     (if is_digit c then Some (digit_val c)
      else if 97 \<le> byte_lower c \<and> byte_lower c \<le> 122 then Some (byte_lower c - 87)
      else None)"

fun uint_loop :: "nat \<Rightarrow> nat \<Rightarrow> string \<Rightarrow> nat option" where
  "uint_loop base n [] = Some n"
| "uint_loop base n (c # cs) =
     (if c = CHR ''_'' then uint_loop base n cs
      else case uint_digit c of
             None \<Rightarrow> None
           | Some d \<Rightarrow>
               if base \<le> d then None
               else if 2 ^ 64 \<le> n * base + d then None
               else uint_loop base (n * base + d) cs)"

text \<open>The base that the prefix chooses, and the digits after it.\<close>

definition uint_base :: "string \<Rightarrow> nat \<times> string" where
  "uint_base s =
     (if hd s \<noteq> CHR ''0'' then (10, s)
      else if 3 \<le> length s \<and> byte_lower (s ! 1) = 98 then (2, drop 2 s)
      else if 3 \<le> length s \<and> byte_lower (s ! 1) = 111 then (8, drop 2 s)
      else if 3 \<le> length s \<and> byte_lower (s ! 1) = 120 then (16, drop 2 s)
      else (8, drop 1 s))"

text \<open>Underscores only between digits, or between the prefix and a digit.\<close>

datatype saw = Start | Digit | Underscore | Other

fun underscore_loop :: "bool \<Rightarrow> saw \<Rightarrow> string \<Rightarrow> bool" where
  "underscore_loop hex saw [] = (saw \<noteq> Underscore)"
| "underscore_loop hex saw (c # cs) =
     (if is_digit c \<or> hex \<and> 97 \<le> byte_lower c \<and> byte_lower c \<le> 102 then underscore_loop hex Digit cs
      else if c = CHR ''_'' then (if saw \<noteq> Digit then False else underscore_loop hex Underscore cs)
      else if saw = Underscore then False
      else underscore_loop hex Other cs)"

definition underscoreOK :: "string \<Rightarrow> bool" where
  "underscoreOK s =
     (let s = (if s \<noteq> [] \<and> (hd s = CHR ''-'' \<or> hd s = CHR ''+'') then tl s else s)
      in if 2 \<le> length s \<and> hd s = CHR ''0'' \<and> byte_lower (s ! 1) \<in> {98, 111, 120}
         then underscore_loop (byte_lower (s ! 1) = 120) Digit (drop 2 s)
         else underscore_loop False Start s)"

definition ParseUint :: "string \<Rightarrow> u64 option" where
  "ParseUint s =
     (if s = [] then None
      else case uint_base s of (base, body) \<Rightarrow>
        (case uint_loop base 0 body of
           None \<Rightarrow> None
         | Some n \<Rightarrow> if CHR ''_'' \<in> set body \<and> \<not> underscoreOK s then None else Some (word_of_nat n)))"

definition ParseInt :: "string \<Rightarrow> int option" where
  "ParseInt s =
     (if s = [] then None
      else
        let neg = (hd s = CHR ''-'');
            body = (if hd s = CHR ''+'' \<or> hd s = CHR ''-'' then tl s else s)
        in case ParseUint body of
             None \<Rightarrow> None
           | Some un \<Rightarrow>
               if \<not> neg \<and> 2 ^ 63 \<le> unat un then None
               else if neg \<and> 2 ^ 63 < unat un then None
               else Some (if neg then - int (unat un) else int (unat un)))"

section \<open>Arguments\<close>

datatype flag_error =
    BadSyntax string
  | Undefined string
  | NeedsArgument string
  | InvalidValue string string
  | Help

text \<open>The name of a flag and, after the first equals sign that is not its first character, its value.\<close>

definition split_flag :: "string \<Rightarrow> string \<times> string option" where
  "split_flag name =
     (let rest = dropWhile (\<lambda>c. c \<noteq> CHR ''='') (tl name)
      in (hd name # takeWhile (\<lambda>c. c \<noteq> CHR ''='') (tl name), if rest = [] then None else Some (tl rest)))"

text \<open>\<open>formal\<close> gives for every defined flag how a value changes the settings, or that the value is invalid.
  The result is the settings and the remaining arguments.\<close>

fun parse_args ::
  "(string \<Rightarrow> (string \<Rightarrow> 'f \<Rightarrow> 'f option) option) \<Rightarrow> string list \<Rightarrow> 'f \<Rightarrow> flag_error + 'f \<times> string list" where
  "parse_args formal [] f = Inr (f, [])"
| "parse_args formal (s # args) f =
     (if length s < 2 \<or> hd s \<noteq> CHR ''-'' then Inr (f, s # args)
      else if s = ''--'' then Inr (f, args)
      else
        let name = (if s ! 1 = CHR ''-'' then drop 2 s else drop 1 s)
        in if name = [] \<or> hd name = CHR ''-'' \<or> hd name = CHR ''='' then Inl (BadSyntax s)
           else case split_flag name of (name, value) \<Rightarrow>
             (case formal name of
                None \<Rightarrow> Inl (if name = ''help'' \<or> name = ''h'' then Help else Undefined name)
              | Some set_value \<Rightarrow>
                  (case value of
                     Some v \<Rightarrow>
                       (case set_value v f of None \<Rightarrow> Inl (InvalidValue v name) | Some f' \<Rightarrow> parse_args formal args f')
                   | None \<Rightarrow>
                       (case args of
                          [] \<Rightarrow> Inl (NeedsArgument name)
                        | v # args' \<Rightarrow>
                            (case set_value v f of
                               None \<Rightarrow> Inl (InvalidValue v name)
                             | Some f' \<Rightarrow> parse_args formal args' f')))))"

section \<open>Printed numbers parse\<close>

lemma digit_not_sign: "is_digit c \<Longrightarrow> c \<noteq> CHR ''_'' \<and> c \<noteq> CHR ''-'' \<and> c \<noteq> CHR ''+''"
  by (auto simp: is_digit_def)

lemma digit_val_less: "is_digit c \<Longrightarrow> digit_val c < 10"
  by (auto simp: is_digit_def digit_val_def)

lemma dec_fold_grows: "a \<le> foldl (\<lambda>a c. 10 * a + digit_val c) a s"
proof (induction s arbitrary: a)
  case (Cons c s)
  have "a \<le> 10 * a + digit_val c" by simp
  also have "\<dots> \<le> foldl (\<lambda>a c. 10 * a + digit_val c) (10 * a + digit_val c) s" by (rule Cons)
  finally show ?case by simp
qed simp

lemma uint_loop_decimal:
  "\<forall>c \<in> set s. is_digit c \<Longrightarrow> foldl (\<lambda>a c. 10 * a + digit_val c) n s < 2 ^ 64 \<Longrightarrow>
   uint_loop 10 n s = Some (foldl (\<lambda>a c. 10 * a + digit_val c) n s)"
proof (induction s arbitrary: n)
  case (Cons c s)
  have "10 * n + digit_val c < 2 ^ 64"
    using dec_fold_grows [of "10 * n + digit_val c" s] Cons.prems(2) by simp
  with Cons digit_not_sign [of c] digit_val_less [of c] show ?case
    by (simp add: uint_digit_def mult.commute)
qed simp

lemma ParseUint_dec:
  assumes "n < 2 ^ 64"
  shows "ParseUint (dec n) = Some (word_of_nat n)"
proof (cases "n = 0")
  case True
  then show ?thesis by (simp add: dec_zero ParseUint_def uint_base_def)
next
  case False
  then have "hd (dec n) \<noteq> CHR ''0''" by (simp add: dec_hd_zero)
  then have "uint_base (dec n) = (10, dec n)" by (simp add: uint_base_def)
  moreover have "CHR ''_'' \<notin> set (dec n)" using dec_digits [of n] digit_not_sign by blast
  moreover have "foldl (\<lambda>a c. 10 * a + digit_val c) 0 (dec n) = n" using dec_val_dec [of n] by (simp add: dec_val_def)
  ultimately show ?thesis using uint_loop_decimal [OF dec_digits, of 0 n] assms by (simp add: ParseUint_def)
qed

lemma ParseUint_FormatUint [simp]: "ParseUint (FormatUint v) = Some v"
  using ParseUint_dec [of "unat v"] by (simp add: FormatUint_def)

lemma unat_of_nat_eq_big: "n \<le> 2 ^ 63 \<Longrightarrow> unat (word_of_nat n :: u64) = n"
  by (simp add: unat_of_nat)

lemma ParseInt_FormatInt:
  assumes "- (2 ^ 63) \<le> i" "i < 2 ^ 63"
  shows "ParseInt (FormatInt i) = Some i"
proof (cases "i < 0")
  case True
  then have small: "nat (- i) \<le> 2 ^ 63" using assms(1) by simp
  then have "unat (word_of_nat (nat (- i)) :: u64) = nat (- i)" by (simp only: unat_of_nat_eq_big)
  moreover have "ParseUint (dec (nat (- i))) = Some (word_of_nat (nat (- i)))" using small by (intro ParseUint_dec) simp
  ultimately show ?thesis using True small
    by (simp add: ParseInt_def FormatInt_def Let_def del: of_nat_nat)
next
  case False
  have "is_digit (hd (dec (nat i)))" using dec_digits [of "nat i"] by (simp add: list.set_sel(1))
  then have "hd (dec (nat i)) \<noteq> CHR ''-''" "hd (dec (nat i)) \<noteq> CHR ''+''" using digit_not_sign by blast+
  moreover have small: "nat i < 2 ^ 63" using assms(2) False by simp
  moreover have "unat (word_of_nat (nat i) :: u64) = nat i" using small by (simp only: unat_of_nat_eq_big less_imp_le)
  moreover have "ParseUint (dec (nat i)) = Some (word_of_nat (nat i))" using small by (intro ParseUint_dec) simp
  ultimately show ?thesis using False by (simp add: ParseInt_def FormatInt_def Let_def del: of_nat_nat)
qed

section \<open>Flags one by one\<close>

definition flag_name :: "string \<Rightarrow> bool" where
  "flag_name name \<longleftrightarrow> name \<noteq> [] \<and> hd name \<noteq> CHR ''-'' \<and> CHR ''='' \<notin> set name"

lemma split_flag_value: "flag_name name \<Longrightarrow> split_flag (name @ CHR ''='' # v) = (name, Some v)"
proof -
  assume "flag_name name"
  then obtain c cs where name: "name = c # cs" "\<forall>x \<in> set cs. x \<noteq> CHR ''=''" by (cases name) (auto simp: flag_name_def)
  from takeWhile_append_stop [OF name(2), of "CHR ''=''" v] dropWhile_append_stop [OF name(2), of "CHR ''=''" v]
  show ?thesis by (simp add: name(1) split_flag_def)
qed

lemma split_flag_bare: "flag_name name \<Longrightarrow> split_flag name = (name, None)"
  by (cases name) (auto simp: flag_name_def split_flag_def takeWhile_eq_all_conv dropWhile_eq_Nil_conv)

lemma flag_name_hd: "flag_name name \<Longrightarrow> hd name \<noteq> CHR ''-'' \<and> hd name \<noteq> CHR ''=''"
  by (cases name) (auto simp: flag_name_def)

lemma parse_flag:
  assumes "flag_name name" "formal name = Some set_value"
  shows "parse_args formal ((CHR ''-'' # name @ CHR ''='' # v) # args) f =
     (case set_value v f of None \<Rightarrow> Inl (InvalidValue v name) | Some f' \<Rightarrow> parse_args formal args f')"
proof -
  obtain c cs where name: "name = c # cs" using assms(1) by (cases name) (auto simp: flag_name_def)
  have "split_flag (c # cs @ CHR ''='' # v) = (name, Some v)"
    using split_flag_value [OF assms(1), of v] by (simp add: name)
  then show ?thesis using flag_name_hd [OF assms(1)] assms(2) by (simp add: name cong: option.case_cong)
qed

text \<open>The four ways to write a flag with its value mean the same.\<close>

lemma parse_flag_forms:
  assumes "flag_name name" "formal name = Some set_value"
  shows "parse_args formal ((CHR ''-'' # name) # v # args) f = parse_args formal ((CHR ''-'' # name @ CHR ''='' # v) # args) f \<and>
    parse_args formal ((''--'' @ name) # v # args) f = parse_args formal ((CHR ''-'' # name @ CHR ''='' # v) # args) f \<and>
    parse_args formal ((''--'' @ name @ CHR ''='' # v) # args) f = parse_args formal ((CHR ''-'' # name @ CHR ''='' # v) # args) f"
proof -
  obtain c cs where name: "name = c # cs" using assms(1) by (cases name) (auto simp: flag_name_def)
  have "split_flag (c # cs @ CHR ''='' # v) = (c # cs, Some v)" "split_flag (c # cs) = (c # cs, None)"
    using split_flag_value [OF assms(1), of v] split_flag_bare [OF assms(1)] by (simp_all add: name)
  then show ?thesis
    using flag_name_hd [OF assms(1)] assms(2) parse_flag [of name formal set_value v args f, OF assms] by (simp add: name)
qed

end
