(* ===== verification/Cli_Args.thy ===== *)
theory Cli_Args
  imports Cli Go_Flag
begin

text \<open>
  The command line of the program: the flags \<^verbatim>\<open>main\<close> defines, their parsing, and the whole program from its
  arguments on.
\<close>

section \<open>The flags of \<^verbatim>\<open>main\<close>\<close>

text \<open>\<^verbatim>\<open>flag.String\<close> takes every value, \<^verbatim>\<open>flag.Uint\<close> and \<^verbatim>\<open>flag.Int\<close> what \<^verbatim>\<open>strconv\<close> reads.\<close>

definition string_flag :: "((string \<Rightarrow> string) \<Rightarrow> flags \<Rightarrow> flags) \<Rightarrow> string \<Rightarrow> flags \<Rightarrow> flags option" where
  "string_flag update v f = Some (update (\<lambda>_. v) f)"

definition uint_flag :: "((u64 \<Rightarrow> u64) \<Rightarrow> flags \<Rightarrow> flags) \<Rightarrow> string \<Rightarrow> flags \<Rightarrow> flags option" where
  "uint_flag update v f = map_option (\<lambda>u. update (\<lambda>_. u) f) (ParseUint v)"

definition int_flag :: "((int \<Rightarrow> int) \<Rightarrow> flags \<Rightarrow> flags) \<Rightarrow> string \<Rightarrow> flags \<Rightarrow> flags option" where
  "int_flag update v f = map_option (\<lambda>i. update (\<lambda>_. i) f) (ParseInt v)"

definition flag_table :: "(string \<times> (string \<Rightarrow> flags \<Rightarrow> flags option)) list" where
  "flag_table =
     [(''n'', uint_flag flag_n_update), (''cmd'', string_flag flag_cmd_update), (''shm'', string_flag flag_shm_update),
      (''sock'', string_flag flag_sock_update), (''out'', string_flag flag_out_update),
      (''export'', string_flag flag_export_update), (''in'', string_flag flag_in_update),
      (''sqlite-out'', string_flag flag_sqlite_out_update), (''csv-out'', string_flag flag_csv_out_update),
      (''db-cli'', string_flag flag_db_cli_update), (''db-host'', string_flag flag_db_host_update),
      (''db-port'', int_flag flag_db_port_update), (''db-user'', string_flag flag_db_user_update),
      (''db-password'', string_flag flag_db_password_update), (''db-name'', string_flag flag_db_name_update),
      (''db-table'', string_flag flag_db_table_update), (''mysql-socket'', string_flag flag_mysql_socket_update),
      (''pg-maintenance-db'', string_flag flag_pg_maintenance_db_update),
      (''pg-sslmode'', string_flag flag_pg_sslmode_update)]"

text \<open>\<^verbatim>\<open>flag.Parse\<close> ends the process with status 0 after a request for help and with status 2 after an error; remaining arguments are
  not looked at.\<close>

datatype program_result = FlagExit nat | Ran main_result

definition program :: "cli_world \<Rightarrow> string list \<Rightarrow> program_result" where
  "program w args =
     (case parse_args (map_of flag_table) args default_flags of
        Inl err \<Rightarrow> FlagExit (if err = Help then 0 else 2)
      | Inr (f, _) \<Rightarrow> Ran (main w f))"

section \<open>Every setting can be given\<close>

definition flag_value :: "flags \<Rightarrow> (string \<times> string) list" where
  "flag_value f =
     [(''n'', FormatUint (flag_n f)), (''cmd'', flag_cmd f), (''shm'', flag_shm f), (''sock'', flag_sock f), (''out'', flag_out f),
      (''export'', flag_export f), (''in'', flag_in f), (''sqlite-out'', flag_sqlite_out f), (''csv-out'', flag_csv_out f),
      (''db-cli'', flag_db_cli f), (''db-host'', flag_db_host f), (''db-port'', FormatInt (flag_db_port f)),
      (''db-user'', flag_db_user f), (''db-password'', flag_db_password f), (''db-name'', flag_db_name f),
      (''db-table'', flag_db_table f), (''mysql-socket'', flag_mysql_socket f),
      (''pg-maintenance-db'', flag_pg_maintenance_db f), (''pg-sslmode'', flag_pg_sslmode f)]"

text \<open>A flag and its value as one argument or as two.\<close>

datatype form = Joined | Split | JoinedLong | SplitLong

fun write_flag :: "form \<Rightarrow> string \<times> string \<Rightarrow> string list" where
  "write_flag Joined (name, v) = [CHR ''-'' # name @ CHR ''='' # v]"
| "write_flag Split (name, v) = [CHR ''-'' # name, v]"
| "write_flag JoinedLong (name, v) = [''--'' @ name @ CHR ''='' # v]"
| "write_flag SplitLong (name, v) = [''--'' @ name, v]"

lemma flag_names: "(name, set_value) \<in> set flag_table \<Longrightarrow> flag_name name"
  by (auto simp: flag_table_def flag_name_def)

lemma parse_written:
  assumes "map_of flag_table name = Some set_value"
  shows "parse_args (map_of flag_table) (write_flag form (name, v) @ args) f =
     (case set_value v f of None \<Rightarrow> Inl (InvalidValue v name) | Some f' \<Rightarrow> parse_args (map_of flag_table) args f')"
proof -
  have "flag_name name" using assms by (rule flag_names [OF map_of_SomeD])
  then show ?thesis
    using parse_flag [of name "map_of flag_table" set_value v args f] parse_flag_forms [of name "map_of flag_table" set_value v args f] assms
    by (cases form) (simp_all del: parse_args.simps)
qed

text \<open>A list of flags, each in any form: its values are set one after the other.\<close>

fun set_all :: "(string \<times> string) list \<Rightarrow> flags \<Rightarrow> flags option" where
  "set_all [] f = Some f"
| "set_all ((name, v) # vs) f =
     (case map_of flag_table name of
        None \<Rightarrow> None
      | Some set_value \<Rightarrow> (case set_value v f of None \<Rightarrow> None | Some f' \<Rightarrow> set_all vs f'))"

lemma parse_all:
  "length forms = length vs \<Longrightarrow> set_all vs f = Some f' \<Longrightarrow>
   parse_args (map_of flag_table) (concat (map2 write_flag forms vs) @ args) f = parse_args (map_of flag_table) args f'"
proof (induction forms vs arbitrary: f rule: list_induct2)
  case (Cons x xs y ys)
  obtain name v where y: "y = (name, v)" by (cases y)
  from Cons.prems obtain set_value f1 where s: "map_of flag_table name = Some set_value" "set_value v f = Some f1" "set_all ys f1 = Some f'"
    by (auto simp: y split: option.splits)
  from parse_written [OF s(1), of x v "concat (map2 write_flag xs ys) @ args" f] s(2) Cons.IH [OF s(3)] show ?case
    by (simp add: y del: parse_args.simps)
qed simp

lemma parse_undefined:
  assumes "flag_name name" "formal name = None"
  shows "parse_args formal ((CHR ''-'' # name) # args) f = Inl (if name = ''help'' \<or> name = ''h'' then Help else Undefined name)"
proof -
  obtain c cs where name: "name = c # cs" using assms(1) by (cases name) (auto simp: flag_name_def)
  have "split_flag (c # cs) = (c # cs, None)" using split_flag_bare [OF assms(1)] by (simp add: name)
  then show ?thesis using flag_name_hd [OF assms(1)] assms(2) by (simp add: name)
qed

lemma set_all_flags:
  assumes "- (2 ^ 63) \<le> flag_db_port f" "flag_db_port f < 2 ^ 63"
  shows "set_all (flag_value f) g = Some f"
  using ParseInt_FormatInt [OF assms]
  by (cases f, cases g) (simp add: flag_value_def flag_table_def string_flag_def uint_flag_def int_flag_def)

section \<open>Properties\<close>

text \<open>C28: Every setting of the program can be given on its command line: for all values of the 19 flags (texts with any
  characters, among them equals signs and leading dashes; the number of stations any 64-bit number, the port
  any 64-bit signed one), written in any of the four forms each, the program parses exactly these settings and runs
  with them; arguments after \<^verbatim>\<open>--\<close> are ignored. A flag that is not defined ends the program with status 2 before anything is
  run or written, a request for help with status 0.\<close>

theorem command_line_round_trip:
  assumes "- (2 ^ 63) \<le> flag_db_port f" "flag_db_port f < 2 ^ 63" "length forms = 19"
  shows "let args = concat (map2 write_flag forms (flag_value f)) in
     program w args = Ran (main w f) \<and> program w (args @ ''--'' # rest) = Ran (main w f) \<and>
     (flag_name name \<and> name \<notin> fst ` set flag_table \<longrightarrow>
        program w (args @ (CHR ''-'' # name) # rest) = FlagExit (if name \<in> {''help'', ''h''} then 0 else 2))"
proof -
  have len: "length forms = length (flag_value f)" using assms(3) by (simp add: flag_value_def)
  note parsed = parse_all [OF len set_all_flags [OF assms(1,2)], where f = default_flags]
  have "map_of flag_table name = None" if "name \<notin> fst ` set flag_table" using that by (simp add: map_of_eq_None_iff)
  then show ?thesis
    using parsed [of "[]"] parsed [of "''--'' # rest"] parsed [of "(CHR ''-'' # name) # rest"]
      parse_undefined [of name "map_of flag_table" rest f]
    by (auto simp: program_def Let_def)
qed

theorem command_line_round_trip_witness:
  "program (demo_world 100 CmdOk) (concat (map2 write_flag (replicate 19 Split) (flag_value (default_flags\<lparr>flag_export := ''-=''\<rparr>)))) =
     Ran (main (demo_world 100 CmdOk) (default_flags\<lparr>flag_export := ''-=''\<rparr>)) \<and>
   program (demo_world 100 CmdOk)
     (concat (map2 write_flag (replicate 19 Split) (flag_value (default_flags\<lparr>flag_export := ''-=''\<rparr>))) @ [''-verbose'']) = FlagExit 2"
proof -
  let ?f = "default_flags\<lparr>flag_export := ''-=''\<rparr>"
  have "flag_db_port ?f = 0" by (simp add: default_flags_def)
  moreover have "flag_name ''verbose''" "''verbose'' \<notin> fst ` set flag_table"
    by (simp_all add: flag_name_def flag_table_def)
  ultimately show ?thesis
    using command_line_round_trip [of ?f "replicate 19 Split" "demo_world 100 CmdOk" "[]" "''verbose''"]
    by (simp add: Let_def)
qed

end
