(* ===== verification/Spec2Isabelle.thy ===== *)
theory Spec2Isabelle
  imports Traced_Future Attach Traced_Runs Release_Order Engine_Runs Log_Writer Cli_Args
begin

text \<open>
  A verification of coroTracer: a tracer for coroutines. The traced program, linked with a probe kit (C++ or Rust),
  writes events into a memory-mapped file; the Go program maps the same file, harvests the events without locks,
  appends them to a JSONL log, and in a second mode converts a log to SQLite, MySQL, PostgreSQL or CSV.

  \<^bold>\<open>The parts and their theories.\<close>

  \<^item> \<open>CT_Prelude\<close>: machine integers as words, byte strings, the collections of simplification rules, facts on lists and words.

  \<^item> \<open>Go_Strings\<close>, \<open>Go_Bufio\<close>, \<open>Go_Json\<close>, \<open>Go_Fmt\<close>, \<open>Go_Flag\<close>: the parts of the Go library the sources call (trimming, replacing, paths, decimal
    text; \<^verbatim>\<open>bufio.Writer\<close> over a file or a pipe, \<^verbatim>\<open>bufio.Scanner\<close>; the JSON parser; \<^verbatim>\<open>Fprintf\<close>; package \<^verbatim>\<open>flag\<close>). The locales \<open>byte_sink\<close> and \<open>roomy_sink\<close> are
    the contract of what a buffered writer writes to, interpreted for files (\<open>osf\<close>) and pipes (\<open>pip\<close>).

  \<^item> \<open>Station_Data\<close> (\<^verbatim>\<open>structure/station.go\<close>, structs): the records, their Go layout computed from the field types, and the
    little-endian bytes of the mapping.

  \<^item> \<open>Jsonl\<close> (\<^verbatim>\<open>structure/jsonl.go\<close>): the line format and \<^verbatim>\<open>StationWriter\<close>. \<open>Log_Writer\<close>: an append-only log as its
    specification, with the refinement.

  \<^item> \<open>Station\<close> (\<^verbatim>\<open>Harvest\<close> in \<^verbatim>\<open>structure/station.go\<close>): the seqlock reader. Memory is a run, a function from time to the
    station; every load takes one tick, so other threads may change anything between two loads.

  \<^item> \<open>Seqlock\<close>, \<open>Probe\<close>, \<open>Probe_Harvest\<close> (\<^verbatim>\<open>SDK/c++/coroTracer.h\<close>, \<^verbatim>\<open>SDK/rust/src/lib.rs\<close>): the locale \<open>seqlock_writer\<close> states
    what a writer owes the reader; the two probes, as step relations with one step per store, are its interpretations
    (\<open>cpp\<close>, \<open>rust\<close>); then what the harvest logs of their events, and the allocation of stations. \<open>Traced_Future\<close>: the calls of
    \<^verbatim>\<open>PollTrace\<close> and \<^verbatim>\<open>TracedFuture::poll\<close>. \<open>Attach\<close>: how a traced process maps the file, in both kits.

  \<^item> \<open>Traced_Program\<close>, \<open>Traced_Runs\<close> (\<^verbatim>\<open>hotHarvestLoop\<close> and the second half of \<^verbatim>\<open>write_trace\<close>): any number of probes of one kit with their store
    buffers, the shared header and the socket as one step relation, and the engine on top of its memory. The locale
    \<open>buffered_probe\<close> extends \<open>seqlock_writer\<close> by what a probe owes the sleeping tracer; both probes are interpretations (\<open>cpp_buf\<close>,
    \<open>rust_buf\<close>). \<open>Release_Order\<close>: what the release stores of \<^verbatim>\<open>write_trace\<close> leave unordered.

  \<^item> \<open>Engine\<close> (\<^verbatim>\<open>engine/engine.go\<close>): construction with all error paths, scan, hot loop, accept loop, close. \<open>Engine_Scan\<close>: the
    history of a sequence of scans, over a quiet and over a changing memory. \<open>Engine_Loop\<close>: the hot loop, its termination and what it
    leaves in the file. \<open>Engine_Runs\<close>: whole runs; failed writes.

  \<^item> \<open>Export_Common\<close> (\<^verbatim>\<open>export/common.go\<close>), \<open>Sql_Text\<close>, \<open>Export_Pipe\<close>, \<open>Export_SQLite\<close>, \<open>Export_MySQL\<close>, \<open>Export_PostgreSQL\<close>,
    \<open>Export_CSV\<close> (the files of \<^verbatim>\<open>export\<close>): reading a log; readers of the SQL texts; the shared shape of the exporters that feed a
    client program; the exporters. The locale \<open>quoted_text\<close> (quoting against the reader of the dialect) is interpreted for every dialect and
    for CSV, \<open>record_writer\<close> and \<open>roomy_writer\<close> (a callback of \<^verbatim>\<open>StreamJSONL\<close>) for the clients' pipes and for CSV, \<open>insert_dialect\<close> (insert
    statements read back) and \<open>script_exporter\<close> (what an exporter sends) for each of the three databases.

  \<^item> \<open>Cli\<close>, \<open>Cli_Args\<close> (\<^verbatim>\<open>main.go\<close>): flags, modes, dispatch, derived paths, the launch of the traced command; the parsing of the
    arguments.

  This theory holds the property that spans them all.

  \<^bold>\<open>How code and model correspond.\<close> A struct is a record, an enumeration of outcomes a datatype; a function that
  returns an error returns an option or a sum, with one branch per early return; fields of 32 and 64 bits are words, so
  counters wrap. What the operating system, a client program or the traced program answers is an argument: the records \<open>os_setup\<close>,
  \<open>cli_env\<close>, \<open>cli_world\<close>, the runs of the shared memory, and the outcomes of \<^verbatim>\<open>Read\<close> and \<^verbatim>\<open>Accept\<close>. Definitions keep the names
  of the sources; a prefix is added where a name is taken (\<open>eng_Close\<close>, \<open>sw_Close\<close>).

  \<^bold>\<open>What is shown.\<close> Harvest: no torn or invented record at any interleaving and with any delay of the stores; the last eight events of a probe are
  found, none is lost when harvests are frequent enough. Engine: records are logged once and in order; a finished record that stays in its
  slot during a scan is found whatever else is written; the hot loop returns when the connection ends; nothing finished is left behind when it returns; it never sleeps over a
  finished record whose probe is done, and at most one byte is sent per sleep. Log: the writer refines an append-only log; lines are JSON and read back exactly. Exports: on success what the
  client was sent reads back as the records of the file, for SQLite exactly when its integers can hold the numbers; an unreadable file is never
  committed; a readable one is exported unless something outside fails. Program: every setting can be given on the command line; mode selection, dispatch, paths. Kits: a traced
  future leaves two alternating events per suspension; the mapping covers every station up to a bound. Properties
  also record what goes wrong: a torn record under a weaker order of stores, a station count of 0, wrapped station counts, an output derived onto its input, a
  table name with a percent sign or a newline, records lost after a failed write, after \<^verbatim>\<open>Close\<close>, or when the command fails.

  \<^bold>\<open>Fuel and bounds.\<close> \<open>bw_loop\<close> gets two rounds, which is enough for a sink that writes everything or fails (\<open>bw_loop_done\<close>). The JSON
  parser gets fuel \<open>2 * length + 2\<close>; more never changes its result (\<open>parse_enough\<close>). \<open>hotHarvestLoop\<close> gets one unit per round; a
  run that returns with some fuel returns the same with more (\<open>hot_mono\<close>), and property \<open>hot_loop_returns\<close> gives a bound. \<open>Run\<close> has no exit in the
  code and is modelled for a given number of rounds, so its properties are about any such prefix. Readers of rows and tables take the number of rows as fuel.

  \<^bold>\<open>Assumptions.\<close> The stores of a probe become visible in program order but with any delay (total store order, as on x86), until its
  fence; loads and the atomic operations of both sides act on the memory at once. The release stores of the probes do not give this
  order by themselves: property \<open>release_stores_torn\<close> shows the record that a weaker order lets through. One thread at a time runs a
  coroutine, and its socket stays connected. Words are stored in little-endian order. MySQL reads literals with backslash escapes
  on; the clients of MySQL and PostgreSQL pass every character of a literal on, while for SQLite the changes of its shell and
  of its 64-bit signed integers are modelled (\<open>sqlite_exact\<close>).

  \<^bold>\<open>Not modelled.\<close> Reordered loads, and reordered stores but for that property; the data race of \<^verbatim>\<open>Close\<close> in \<^verbatim>\<open>main\<close> or in the signal handler with the harvesting
  goroutine (the engine is taken in a state between two steps of it); clocks and thread identifiers of the kits, the C++ awaiter
  templates beyond the events they report; the databases themselves beyond reading their input; directives of
  \<^verbatim>\<open>Fprintf\<close> other than \<^verbatim>\<open>%d\<close>, \<^verbatim>\<open>%s\<close>, \<^verbatim>\<open>%t\<close>, which only a table name can contain, are an argument; text printed to the
  terminal; the order among the three header stores of a probe's constructor, which are one step; overflow of \<^verbatim>\<open>int\<close> in \<^verbatim>\<open>InitTracer\<close> wraps here
  and is undefined in C++; the Lean development, tests and documents of the repository.
\<close>

section \<open>From the shared memory to the database\<close>

lemma log_bytes_records:
  assumes "jf_open_err fl = None" "jf_read_err fl = None" "jf_bytes fl = concat (map event_line evs)"
  shows "file_ok path fl" "file_records path fl = map event_record evs"
proof -
  have "fl = log_file evs" using assms by (simp add: log_file_def)
  then show "file_ok path fl" "file_records path fl = map event_record evs" by (simp_all add: log_file_ok)
qed

lemma log_exported:
  assumes "path = resolveExportInput (flag_in fl) (flag_out fl)" "ToLower (TrimSpace (TrimSpace (flag_export fl))) = ''sqlite''"
    "cw_file w path = \<lparr>jf_open_err = None, jf_bytes = log, jf_read_err = None\<rparr>"
    "\<not> cw_same w (sqlite_target path (export_config fl)) path" "main w fl = ExportFinished (ViaClient run)"
    "log = concat (map event_line evs)"
  shows "xr_sent run = concat (map snd sqlite_preamble) @ concat (map sqlite_insert (map event_record evs)) @ commit_text"
proof -
  have recs: "file_records path (cw_file w path) = map event_record evs"
    using log_bytes_records(2) [of "cw_file w path" evs path] assms(3,6) by simp
  have run: "run = ExportJSONLToSQLite (sqlite_target path (export_config fl)) (cw_cli w) path (cw_file w path)" "xr_err run = None"
    using main_exported [OF assms(5)] assms(2,4)
    by (simp_all add: runExport_def input_after_remove_def Let_def flip: assms(1))
  then show ?thesis
    using sqlite.success [of "sqlite_target path (export_config fl)" "cw_cli w" path "cw_file w path"] recs
    by (simp add: sqlite.script_def)
qed

text \<open>SQLite holds the record of a finished call exactly when the numbers of the call are small enough.\<close>

lemma finished_call_exact:
  assumes "finished_call run ids i j ev"
    "\<And>u i j. i < length ids \<Longrightarrow> length (pr_written (w_mem (tp_writers (run u) ! i)) j) < 2 ^ 62"
    "\<forall>u i j p. i < length ids \<and> p \<in> set (pr_written (w_mem (tp_writers (run u) ! i)) j) \<longrightarrow> p_tid p < 2 ^ 63 \<and> p_ts p < 2 ^ 63"
  shows "sqlite_exact (event_record ev)"
proof -
  obtain u where i: "i < length ids" and u: "pr_written (w_mem (tp_writers (run u) ! i)) j \<noteq> []"
      "event_payload ev = last (pr_written (w_mem (tp_writers (run u) ! i)) j)"
      "unat (ev_seq ev) = 2 * length (pr_written (w_mem (tp_writers (run u) ! i)) j)"
    using assms(1) by (auto simp: finished_call_def Let_def)
  have "unat (ev_seq ev) < 2 ^ 63" using u(3) assms(2) [OF i, of u j] by simp
  then have "ev_seq ev < 2 ^ 63" by (simp add: word_less_nat_alt)
  moreover have "p_tid (event_payload ev) < 2 ^ 63 \<and> p_ts (event_payload ev) < 2 ^ 63"
    unfolding u(2) using assms(3) i last_in_set [OF u(1)] by blast
  ultimately show ?thesis by (simp add: event_record_exact event_payload_def)
qed

text \<open>C3: From the probes to the database: while any number of C++ probes write their stations through store buffers, the
  engine harvests them until the connection ends, and the log file, which may already hold the events of earlier runs, is then
  exported to SQLite. What the committed transaction holds is exactly the earlier events followed by the harvested ones, in
  the order of the log. Each harvested one is a finished call of \<^verbatim>\<open>write_trace\<close> of the probe that owns the station; for each slot they
  come in increasing order, and they have caught up with every finished record that stayed in its slot during
  the last scan of the loop. Nothing is lost, changed or invented in between. (SQLite holds integers below \<open>2 ^ 63\<close> exactly, so thread
  identifiers and times are below that, and there are fewer than \<open>2 ^ 62\<close> writes per slot, each counting 2.)\<close>

theorem trace_then_export:
  assumes "length ids = unat n" "sys 0 = tp_start (map cpp_init ids) h" "traced_run cpp_step sys"
    "\<And>u i j. i < length ids \<Longrightarrow> length (pr_written (w_mem (tp_writers (sys u) ! i)) j) < 2 ^ 62"
    "\<forall>u i j p. i < length ids \<and> p \<in> set (pr_written (w_mem (tp_writers (sys u) ! i)) j) \<longrightarrow> p_tid p < 2 ^ 63 \<and> p_ts p < 2 ^ 63"
    "list_all (\<lambda>ev. ev_tid ev < 2 ^ 63 \<and> ev_seq ev < 2 ^ 63 \<and> ev_ts ev < 2 ^ 63) old"
    "NewTracerEngine n os = Started e" "log_opened os = Inr f0" "file_bytes f0 = concat (map event_line old)"
    "hotHarvestLoop fuel (\<lambda>u. tp_shm (sys u)) reads t k e stores = Some (t', k', e', st)" "\<not> sw_failed (eng_writer e')"
    "path = resolveExportInput (flag_in fl) (flag_out fl)" "ToLower (TrimSpace (TrimSpace (flag_export fl))) = ''sqlite''"
    "cw_file w path = \<lparr>jf_open_err = None, jf_bytes = sw_file (eng_writer e'), jf_read_err = None\<rparr>"
    "\<not> cw_same w (sqlite_target path (export_config fl)) path"
    "main w fl = ExportFinished (ViaClient run)"
  shows "\<exists>found rows t1 e1. xr_sent run = concat (map snd sqlite_preamble) @ rows \<and>
     (\<forall>m \<ge> length old + length found.
        read_rows m read_sqlite_row rows = (map event_record old @ map (\<lambda>r. event_record (snd r)) found, commit_text)) \<and>
     (\<forall>i j ev. ((i, j), ev) \<in> set found \<longrightarrow> finished_call sys ids i j ev) \<and>
     (\<forall>i j. sorted_wrt (<) (slot_log i j found)) \<and>
     t < t1 \<and> last_scan (\<lambda>u. tp_shm (sys u)) t1 e1 = (t', e') \<and> log_complete (\<lambda>u. tp_shm (sys u)) t1 t' e found"
proof -
  let ?mem = "\<lambda>u. tp_shm (sys u)"
  have e: "sw_stream (eng_writer e) = concat (map event_line old)" "wf_engine e"
    using started_facts [OF assms(7)] assms(8,9) by (metis sum.inject(2))+
  have max: "length ids = unat (eng_maxStations e)" using assms(1,7) unfolding NewTracerEngine_Started by auto
  obtain ts t1 e1 where log: "sw_file (eng_writer e') = sw_stream (eng_writer e) @ concat (map (\<lambda>r. event_line (snd r)) (scan_history ?mem ts e))"
      and ts: "\<And>i j. sorted_wrt (<) (slot_log i j (scan_history ?mem ts e))"
      and late: "t < t1" "last_scan ?mem t1 e1 = (t', e')" "log_complete ?mem t1 t' e (scan_history ?mem ts e)"
    by (rule hot_log [OF e(2) assms(10,11)]) blast
  have few: "length (pr_written (w_mem (tp_writers (sys u) ! i)) j) < 2 ^ 63" if "i < length ids" for u i j
    using assms(4) [OF that, of u j] by simp
  have fin: "finished_call sys ids i j ev" if "((i, j), ev) \<in> set (scan_history ?mem ts e)" for i j ev
    using cpp_record_finished [OF e(2) max assms(2,3) few that] .
  have "sqlite_exact (event_record ev)" if "((i, j), ev) \<in> set (scan_history ?mem ts e)" for i j ev
    using finished_call_exact [OF fin [OF that] _ assms(5)] assms(4) by blast
  then have "list_all sqlite_exact (map (\<lambda>r. event_record (snd r)) (scan_history ?mem ts e))" by (auto simp: list_all_iff)
  moreover have "list_all sqlite_exact (map event_record old)" using assms(6) by (simp add: list_all_iff event_record_exact)
  ultimately have exact: "list_all sqlite_exact (map event_record (old @ map snd (scan_history ?mem ts e)))"
    by (auto simp: list_all_iff)
  let ?evs = "old @ map snd (scan_history ?mem ts e)"
  have "xr_sent run = concat (map snd sqlite_preamble) @ concat (map sqlite_insert (map event_record ?evs)) @ commit_text"
    by (rule log_exported [OF assms(12-16)]) (simp add: log e(1) comp_def)
  moreover have "read_rows m read_sqlite_row (concat (map sqlite_insert (map event_record ?evs)) @ commit_text) =
      (map event_record ?evs, commit_text)" if "length old + length (scan_history ?mem ts e) \<le> m" for m
    using that by (intro sqlite_rows.read_rows_inserts commit_no_insert exact) simp
  ultimately show ?thesis using ts late fin
    by (intro exI [of _ "scan_history ?mem ts e"] exI [of _ "concat (map sqlite_insert (map event_record ?evs)) @ commit_text"]
          exI [of _ t1] exI [of _ e1] conjI allI impI) (simp_all add: comp_def)
qed

theorem trace_then_export_witness:
  "let sys = woken_run (cpp_init 9) (write_trace (demo_payload 1) cpp_demo); mem = (\<lambda>u. tp_shm (sys u)) in
   \<exists>e t' k' e' st w run found rows. NewTracerEngine 1 (demo_os_with []) = Started e \<and>
     hotHarvestLoop 42 mem (\<lambda>_. ReadFailed) 0 0 e [] = Some (t', k', e', st) \<and>
     main w (default_flags\<lparr>flag_export := ''sqlite''\<rparr>) = ExportFinished (ViaClient run) \<and>
     xr_sent run = concat (map snd sqlite_preamble) @ rows \<and>
     fst (read_rows (length found) read_sqlite_row rows) = map (\<lambda>r. event_record (snd r)) (found :: scan_record list) \<and>
     list_all (\<lambda>r. ev_probe (snd r) = 9) found"
proof -
  let ?sys = "woken_run (cpp_init 9) (write_trace (demo_payload 1) cpp_demo)"
  let ?mem = "\<lambda>u. tp_shm (?sys u)"
  have quiet: "quiet_from ?mem 40 (?mem 3)" by (simp add: quiet_from_def woken_run_def)
  obtain e t' k' e' st where e: "NewTracerEngine 1 (demo_os_with []) = Started e"
      "hotHarvestLoop 42 ?mem (\<lambda>_. ReadFailed) 0 0 e [] = Some (t', k', e', st)" "\<not> sw_failed (eng_writer e')"
    by (rule quiet_connection [OF quiet])
  let ?f = "default_flags\<lparr>flag_export := ''sqlite''\<rparr>" and ?path = "''trace_output.jsonl''"
  let ?fl = "\<lparr>jf_open_err = None, jf_bytes = sw_file (eng_writer e'), jf_read_err = None\<rparr>"
  let ?out = "sqlite_target ?path (export_config ?f)"
  define w where "w = (demo_world 40 CmdOk)\<lparr>cw_file := \<lambda>_. ?fl,
    cw_cli := good_env (length (sqlite.script (file_records ?path ?fl)))\<rparr>"
  have path: "?path = resolveExportInput (flag_in ?f) (flag_out ?f)" "TrimSpace (flag_cmd ?f) = []"
    "TrimSpace (flag_export ?f) = ''sqlite''" "ToLower (TrimSpace ''sqlite'') = ''sqlite''" "?out \<noteq> ?path"
    by code_simp+
  have f0: "log_opened (demo_os_with []) = Inr \<lparr>file_bytes = [], file_room = 1000000, file_open = True\<rparr>"
    by (simp add: demo_os_with_def)
  have stream: "sw_stream (eng_writer e) = []" "wf_engine e" using started_facts [OF e(1)] f0 by auto
  obtain us where "sw_file (eng_writer e') =
      sw_stream (eng_writer e) @ concat (map (\<lambda>r. event_line (snd r)) (scan_history ?mem us e))"
    by (rule hot_log [OF stream(2) e(2,3)])
  then have "sw_file (eng_writer e') = concat (map event_line (map snd (scan_history ?mem us e)))"
    using stream(1) by (simp add: comp_def)
  then have ok: "file_ok ?path ?fl" by (intro log_bytes_records(1) [of ?fl "map snd (scan_history ?mem us e)"]) simp_all
  have "xr_err (ExportJSONLToSQLite ?out (cw_cli w) ?path ?fl) = None"
    by (rule sqlite.complete) (simp_all add: w_def sqlite_good_env ok)
  then have m: "main w ?f = ExportFinished (ViaClient (ExportJSONLToSQLite ?out (cw_cli w) ?path ?fl))"
    using path by (simp add: main_def runExport_def input_after_remove_def w_def demo_world_def Let_def flip: path(1))
  have same: "\<not> cw_same w ?out ?path" using path(5) by (simp add: w_def demo_world_def)
  have fl: "cw_file w ?path = ?fl" by (simp add: w_def)
  have kind: "ToLower (TrimSpace (TrimSpace (flag_export ?f))) = ''sqlite''" using path(3,4) by simp
  have one: "length [9::u64] = unat (1::u32)" by simp
  have few: "length (pr_written (w_mem (tp_writers (?sys u) ! i)) j) < 2 ^ 62" if "i < length [9::u64]" for u i j
    using cpp_woken_written [OF that, of u j] by (elim insertE emptyE) simp_all
  have "p_tid p < 2 ^ 63 \<and> p_ts p < 2 ^ 63"
    if "i < length [9::u64]" "p \<in> set (pr_written (w_mem (tp_writers (?sys u) ! i)) j)" for u i j p
    using cpp_woken_written [OF that(1), of u j] that(2) by (elim insertE emptyE) (simp_all add: demo_payload_def)
  then have small: "\<forall>u i j p. i < length [9::u64] \<and> p \<in> set (pr_written (w_mem (tp_writers (?sys u) ! i)) j) \<longrightarrow>
      p_tid p < 2 ^ 63 \<and> p_ts p < 2 ^ 63" by blast
  obtain found rows where sent: "xr_sent (ExportJSONLToSQLite ?out (cw_cli w) ?path ?fl) = concat (map snd sqlite_preamble) @ rows"
    and all: "\<forall>m \<ge> length found. read_rows m read_sqlite_row rows = (map (\<lambda>r. event_record (snd r)) found, commit_text)"
    and calls: "\<forall>i j ev. ((i, j), ev) \<in> set found \<longrightarrow> finished_call ?sys [9] i j ev"
    using trace_then_export [OF one cpp_woken_start woken_run_traced(1) [OF cpp_demo_writes] few small _
        e(1) f0 _ e(2,3) path(1) kind fl same m, where old = "[]"]
    by auto
  have "ev_probe ev = 9" if "((i, j), ev) \<in> set found" for i j ev
    using calls [rule_format, OF that] by (auto simp: finished_call_def Let_def)
  then have "list_all (\<lambda>r. ev_probe (snd r) = 9) found" by (auto simp: list_all_iff)
  moreover have "fst (read_rows (length found) read_sqlite_row rows) = map (\<lambda>r. event_record (snd r)) found"
    using all [rule_format, OF order_refl] by simp
  ultimately show ?thesis unfolding Let_def using e(1,2) m sent by blast
qed

end
